theory Spec2Isabelle
  imports Complex_Main "HOL-Library.AList"
begin

section \<open>Ambulance routing: graph preparation, MILP construction, result extraction\<close>

text \<open>
  A shallow embedding of \<^verbatim>\<open>src/data/graph_processor.py\<close> and
  \<^verbatim>\<open>src/models/optimization_model.py\<close>. Python floats are idealised as
  \<^typ>\<open>real\<close>; every exception the code can raise is a value of \<open>error\<close>.
\<close>

subsection \<open>Values, attribute dictionaries, errors\<close>

type_synonym node = int
type_synonym ekey = int

text \<open>An attribute value of a node or an edge: a number or anything else (text).\<close>

datatype val = Num real | Txt string

text \<open>
  A Python \<^verbatim>\<open>dict\<close> is an association list in insertion order with distinct keys;
  \<^const>\<open>AList.update\<close> is \<^verbatim>\<open>d[k] = v\<close> (replace in place, or append a new key).
\<close>

type_synonym attrs = "(string \<times> val) list"

datatype error = KeyError | TypeError | ValueError | ZeroDivisionError | PulpError

text \<open>\<^verbatim>\<open>d.update(other)\<close>, also the effect of passing \<^verbatim>\<open>**other\<close> to a fresh dict.\<close>

fun dict_update :: "('k \<times> 'v) list \<Rightarrow> ('k \<times> 'v) list \<Rightarrow> ('k \<times> 'v) list" where
  "dict_update d [] = d"
| "dict_update d ((k, v) # rest) = dict_update (AList.update k v d) rest"

text \<open>A \<^verbatim>\<open>for\<close> loop whose body may raise: the first exception ends the loop.\<close>

fun foldE :: "('a \<Rightarrow> 's \<Rightarrow> error + 's) \<Rightarrow> 'a list \<Rightarrow> 's \<Rightarrow> error + 's" where
  "foldE f [] s = Inr s"
| "foldE f (x # xs) s = (case f x s of Inl e \<Rightarrow> Inl e | Inr s' \<Rightarrow> foldE f xs s')"

subsection \<open>The street multigraph (networkx MultiDiGraph)\<close>

text \<open>
  The multigraph is given by its two views: \<^verbatim>\<open>grafo.nodes(data=True)\<close> and
  \<^verbatim>\<open>grafo.edges(keys=True, data=True)\<close>, each in iteration order. Parallel
  edges between the same ordered pair differ in their key.
\<close>

type_synonym medge = "node \<times> node \<times> ekey \<times> attrs"

record multidigraph =
  mg_nodes :: "(node \<times> attrs) list"
  mg_edges :: "medge list"

text \<open>
  What networkx guarantees of a MultiDiGraph: node ids are distinct, the keys of parallel
  edges are distinct, edges join nodes of the graph, and attribute dicts have distinct keys.
\<close>

definition mg_wf :: "multidigraph \<Rightarrow> bool" where
  "mg_wf g \<longleftrightarrow>
     distinct (map fst (mg_nodes g)) \<and>
     list_all (\<lambda>(n, d). distinct (map fst d)) (mg_nodes g) \<and>
     distinct (map (\<lambda>(u, v, k, d). (u, v, k)) (mg_edges g)) \<and>
     list_all (\<lambda>(u, v, k, d). u \<in> fst ` set (mg_nodes g) \<and> v \<in> fst ` set (mg_nodes g) \<and>
                 distinct (map fst d)) (mg_edges g)"

text \<open>\<^verbatim>\<open>multi_grafo[i][j].items()\<close>: the parallel edges from i to j, by key.\<close>

definition paralelas :: "multidigraph \<Rightarrow> node \<Rightarrow> node \<Rightarrow> (ekey \<times> attrs) list" where
  "paralelas g i j = map (\<lambda>(u, v, k, d). (k, d)) (filter (\<lambda>(u, v, k, d). u = i \<and> v = j) (mg_edges g))"

definition number_of_edges :: "multidigraph \<Rightarrow> node \<Rightarrow> node \<Rightarrow> nat" where
  "number_of_edges g i j = length (paralelas g i j)"

definition successors :: "multidigraph \<Rightarrow> node \<Rightarrow> node list" where
  "successors g n = remdups (map (\<lambda>(u, v, k, d). v) (filter (\<lambda>(u, v, k, d). u = n) (mg_edges g)))"

definition predecessors :: "multidigraph \<Rightarrow> node \<Rightarrow> node list" where
  "predecessors g n = remdups (map (\<lambda>(u, v, k, d). u) (filter (\<lambda>(u, v, k, d). v = n) (mg_edges g)))"

subsection \<open>The pseudo-random generator\<close>

text \<open>
  After \<^verbatim>\<open>random.seed(seed)\<close> the generator is a fixed sequence of draws; the seed
  is represented by that sequence. \<^verbatim>\<open>random.uniform(a, b)\<close> is
  \<^verbatim>\<open>a + (b - a) * random()\<close>.
\<close>

type_synonym 'a draws = "nat \<Rightarrow> 'a"

definition resto :: "'a draws \<Rightarrow> 'a draws" where
  "resto rs = (\<lambda>n. rs (Suc n))"

definition random_uniform :: "real \<Rightarrow> real \<Rightarrow> real draws \<Rightarrow> real \<times> real draws" where
  "random_uniform a b rs = (a + (b - a) * rs 0, resto rs)"

subsection \<open>graph\_processor: asignar\_capacidades\_aleatorias\<close>

text \<open>
  The loop over \<^verbatim>\<open>grafo.edges(keys=True, data=True)\<close>: one draw per edge
  \<open>(u, v, key)\<close>, stored under \<^verbatim>\<open>'capacity'\<close>; the draws are also collected in
  \<^verbatim>\<open>capacidades\<close>.
\<close>

fun asignar_aristas :: "real \<Rightarrow> real \<Rightarrow> medge list \<Rightarrow> real draws \<Rightarrow> medge list \<times> real list" where
  "asignar_aristas c_min c_max [] rs = ([], [])"
| "asignar_aristas c_min c_max ((u, v, key, data) # es) rs =
     (let (capacidad, rs') = random_uniform c_min c_max rs;
          (es', capacidades) = asignar_aristas c_min c_max es rs'
      in ((u, v, key, AList.update ''capacity'' (Num capacidad) data) # es',
          capacidad # capacidades))"

text \<open>
  There is no check of the range. The report printed after the loop takes
  \<^verbatim>\<open>min(capacidades)\<close>, which raises ValueError on a graph without edges.
\<close>

definition asignar_capacidades_aleatorias ::
    "multidigraph \<Rightarrow> real \<Rightarrow> real \<Rightarrow> real draws \<Rightarrow> error + multidigraph" where
  "asignar_capacidades_aleatorias grafo c_min c_max rs =
     (let (es', capacidades) = asignar_aristas c_min c_max (mg_edges grafo) rs
      in if capacidades = [] then Inl ValueError
         else Inr (grafo\<lparr>mg_edges := es'\<rparr>))"

text \<open>The capacity attribute of each edge, in iteration order.\<close>

definition capacidades_de :: "multidigraph \<Rightarrow> (node \<times> node \<times> ekey \<times> val option) list" where
  "capacidades_de g = map (\<lambda>(u, v, k, d). (u, v, k, map_of d ''capacity'')) (mg_edges g)"


subsection \<open>Emergencies\<close>

text \<open>
  An emergency as \<^verbatim>\<open>generar_conjunto_emergencias\<close> produces it, and after
  \<^verbatim>\<open>asignar_emergencias_a_nodos\<close> has added its destination node and coordinates.
\<close>

record emergencia =
  eid :: int
  severidad :: string
  velocidad_requerida :: real
  ambulancia_id :: int
  origen :: string

record emergencia_completa = emergencia +
  nodo_destino :: node
  latitud :: val
  longitud :: val

subsection \<open>graph\_processor: asignar\_emergencias\_a\_nodos\<close>

text \<open>
  \<^verbatim>\<open>grafo.predecessors(n)\<close> and \<^verbatim>\<open>grafo.successors(n)\<close> list each neighbour
  once, whatever the number of parallel edges.
\<close>

definition filtrar_nodos_internos :: "multidigraph \<Rightarrow> nat \<Rightarrow> nat \<Rightarrow> node list" where
  "filtrar_nodos_internos grafo min_salidas min_entradas =
     filter (\<lambda>nodo. min_entradas \<le> length (predecessors grafo nodo) \<and>
                    min_salidas \<le> length (successors grafo nodo))
       (map fst (mg_nodes grafo))"

text \<open>
  \<^verbatim>\<open>random.sample(population, k)\<close> as CPython has it. \<^verbatim>\<open>randbelow(m)\<close> is the next
  draw reduced into \<open>[0, m)\<close>. ValueError when \<open>k\<close> exceeds the population. A population
  of at most \<^verbatim>\<open>setsize\<close> elements is sampled from a pool
  (\<^verbatim>\<open>j = randbelow(n - i); result[i] = pool[j]; pool[j] = pool[n - i - 1]\<close>); a larger one
  by drawing positions until one is new
  (\<^verbatim>\<open>j = randbelow(n); while j in selected: j = randbelow(n)\<close>), a loop that ends only if
  the generator produces a new position: where it does not, the sample is \<open>None\<close>.
\<close>

text \<open>
  \<^verbatim>\<open>_ceil(_log(m, 4))\<close>, the logarithm taken exactly: the least \<open>e\<close> with \<open>m \<le> 4 ^ e\<close>.
\<close>

function techo_log4_desde :: "nat \<Rightarrow> nat \<Rightarrow> nat" where
  "techo_log4_desde m e = (if m \<le> 4 ^ e then e else techo_log4_desde m (Suc e))"
  by pat_completeness auto
termination
proof (relation "measure (\<lambda>(m, e). m - 4 ^ e)")
  show "wf (measure (\<lambda>(m, e). m - 4 ^ e))" by simp
next
  fix m e :: nat
  assume "\<not> m \<le> 4 ^ e"
  then have a: "4 ^ e < m" by simp
  have b: "(4::nat) ^ e < 4 ^ Suc e" by simp
  from b a have "m - 4 ^ Suc e < m - 4 ^ e" by (rule diff_less_mono2)
  then show "((m, Suc e), (m, e)) \<in> measure (\<lambda>(m, e). m - 4 ^ e)"
    by simp
qed

declare techo_log4_desde.simps [simp del]

definition setsize :: "nat \<Rightarrow> nat" where
  "setsize k = (if 5 < k then 21 + 4 ^ techo_log4_desde (k * 3) 0 else 21)"

fun sample_pool :: "'a list \<Rightarrow> nat \<Rightarrow> nat \<Rightarrow> nat draws \<Rightarrow> 'a list" where
  "sample_pool pool m 0 rs = []"
| "sample_pool pool m (Suc k) rs =
     (let j = rs 0 mod m
      in pool ! j # sample_pool (pool[j := pool ! (m - 1)]) (m - 1) k (resto rs))"

partial_function (option) sorteo_nuevo :: "nat \<Rightarrow> nat set \<Rightarrow> nat draws \<Rightarrow> (nat \<times> nat draws) option" where
  "sorteo_nuevo n selected rs =
     (let j = rs 0 mod n
      in if j \<in> selected then sorteo_nuevo n selected (resto rs) else Some (j, resto rs))"

fun sample_set :: "'a list \<Rightarrow> nat \<Rightarrow> nat \<Rightarrow> nat set \<Rightarrow> nat draws \<Rightarrow> 'a list option" where
  "sample_set population n 0 selected rs = Some []"
| "sample_set population n (Suc k) selected rs =
     (case sorteo_nuevo n selected rs of
        None \<Rightarrow> None
      | Some (j, rs') \<Rightarrow>
          (case sample_set population n k (insert j selected) rs' of
             None \<Rightarrow> None
           | Some result \<Rightarrow> Some (population ! j # result)))"

definition random_sample :: "'a list \<Rightarrow> nat \<Rightarrow> nat draws \<Rightarrow> (error + 'a list) option" where
  "random_sample population k rs =
     (let n = length population
      in if \<not> k \<le> n then Some (Inl ValueError)
         else if n \<le> setsize k then Some (Inr (sample_pool population n k rs))
         else map_option Inr (sample_set population n k {} rs))"

text \<open>\<^verbatim>\<open>d[k]\<close>: KeyError on a missing key.\<close>

definition getitem :: "('k \<times> 'v) list \<Rightarrow> 'k \<Rightarrow> error + 'v" where
  "getitem d k = (case map_of d k of None \<Rightarrow> Inl KeyError | Some v \<Rightarrow> Inr v)"

text \<open>A loop that appends one result per element and may raise.\<close>

fun mapE :: "('a \<Rightarrow> error + 'b) \<Rightarrow> 'a list \<Rightarrow> error + 'b list" where
  "mapE f [] = Inr []"
| "mapE f (x # xs) =
     (case f x of
        Inl e \<Rightarrow> Inl e
      | Inr y \<Rightarrow> (case mapE f xs of Inl e \<Rightarrow> Inl e | Inr ys \<Rightarrow> Inr (y # ys)))"

text \<open>
  The body of the loop over \<^verbatim>\<open>zip(emergencias, nodos_seleccionados)\<close>. Its report
  formats both coordinates with \<^verbatim>\<open>:.6f\<close>, which raises ValueError on a text.
\<close>

definition completar_emergencia ::
    "multidigraph \<Rightarrow> emergencia \<times> node \<Rightarrow> error + emergencia_completa" where
  "completar_emergencia grafo p =
     (case p of (emergencia, nodo) \<Rightarrow>
        (case getitem (mg_nodes grafo) nodo of
           Inl e \<Rightarrow> Inl e
         | Inr nodo_data \<Rightarrow>
             (case getitem nodo_data ''y'' of
                Inl e \<Rightarrow> Inl e
              | Inr y \<Rightarrow>
                  (case getitem nodo_data ''x'' of
                     Inl e \<Rightarrow> Inl e
                   | Inr x \<Rightarrow>
                       (case (y, x) of
                          (Num lat, Num lon) \<Rightarrow>
                            Inr \<lparr>eid = eid emergencia, severidad = severidad emergencia,
                                 velocidad_requerida = velocidad_requerida emergencia,
                                 ambulancia_id = ambulancia_id emergencia, origen = origen emergencia,
                                 nodo_destino = nodo, latitud = y, longitud = x\<rparr>
                        | _ \<Rightarrow> Inl ValueError)))))"

text \<open>
  The function takes no origin: the candidates \<^verbatim>\<open>nodos_a_usar\<close> are the internal
  nodes, or all nodes when there are fewer internal nodes than emergencies. The share of
  internal nodes that it prints divides by the number of nodes (ZeroDivisionError on an
  empty graph). \<open>None\<close> is the call that does not return.
\<close>

definition nodos_a_usar :: "multidigraph \<Rightarrow> emergencia list \<Rightarrow> node list" where
  "nodos_a_usar grafo emergencias =
     (let nodos_internos = filtrar_nodos_internos grafo 3 3
      in if length nodos_internos < length emergencias then map fst (mg_nodes grafo)
         else nodos_internos)"

definition asignar_emergencias_a_nodos ::
    "multidigraph \<Rightarrow> emergencia list \<Rightarrow> nat draws \<Rightarrow> (error + emergencia_completa list) option" where
  "asignar_emergencias_a_nodos grafo emergencias rs =
     (if mg_nodes grafo = [] then Some (Inl ZeroDivisionError)
      else
        (case random_sample (nodos_a_usar grafo emergencias) (length emergencias) rs of
           None \<Rightarrow> None
         | Some (Inl e) \<Rightarrow> Some (Inl e)
         | Some (Inr nodos_seleccionados) \<Rightarrow>
             Some (mapE (completar_emergencia grafo) (zip emergencias nodos_seleccionados))))"

subsection \<open>The simple directed graph (networkx DiGraph)\<close>

text \<open>
  A DiGraph keeps \<^verbatim>\<open>_node\<close> (node to attributes) and \<^verbatim>\<open>_adj\<close> (node to
  successor to edge attributes), both insertion-ordered dicts. \<^verbatim>\<open>G.nodes()\<close>
  iterates the first, \<^verbatim>\<open>G.edges()\<close> the second, node by node.
\<close>

record digraph =
  dg_node :: "(node \<times> attrs) list"
  dg_adj :: "(node \<times> (node \<times> attrs) list) list"

definition dg_vacio :: digraph where
  "dg_vacio = \<lparr>dg_node = [], dg_adj = []\<rparr>"

definition dg_nodes :: "digraph \<Rightarrow> node list" where
  "dg_nodes g = map fst (dg_node g)"

definition dg_edges :: "digraph \<Rightarrow> (node \<times> node) list" where
  "dg_edges g = concat (map (\<lambda>(u, nbrs). map (\<lambda>(v, d). (u, v)) nbrs) (dg_adj g))"

text \<open>\<^verbatim>\<open>G[i][j]\<close> where it exists.\<close>

definition dg_get :: "digraph \<Rightarrow> node \<Rightarrow> node \<Rightarrow> attrs option" where
  "dg_get g i j = (case map_of (dg_adj g) i of None \<Rightarrow> None | Some nbrs \<Rightarrow> map_of nbrs j)"

text \<open>\<^verbatim>\<open>G[i][j][a]\<close>: KeyError when the edge or the attribute is missing.\<close>

definition edge_attr :: "digraph \<Rightarrow> node \<Rightarrow> node \<Rightarrow> string \<Rightarrow> error + val" where
  "edge_attr g i j a =
     (case dg_get g i j of
        None \<Rightarrow> Inl KeyError
      | Some d \<Rightarrow> (case map_of d a of None \<Rightarrow> Inl KeyError | Some v \<Rightarrow> Inr v))"

text \<open>
  The body of networkx's \<^verbatim>\<open>add_node(self, node_for_adding, **attr)\<close>, once its
  arguments are bound.
\<close>

definition cuerpo_add_node :: "digraph \<Rightarrow> node \<Rightarrow> attrs \<Rightarrow> digraph" where
  "cuerpo_add_node g n attr =
     (case map_of (dg_node g) n of
        None \<Rightarrow> \<lparr>dg_node = dg_node g @ [(n, dict_update [] attr)], dg_adj = dg_adj g @ [(n, [])]\<rparr>
      | Some old \<Rightarrow> g\<lparr>dg_node := AList.update n (dict_update old attr) (dg_node g)\<rparr>)"

text \<open>
  The body of networkx's \<^verbatim>\<open>add_edge(self, u_of_edge, v_of_edge, **attr)\<close>, once its
  arguments are bound:
  missing end points are added without attributes, then the edge's dict (a fresh one for
  a new edge) is updated with \<open>attr\<close>.
\<close>

definition asegurar_nodo :: "digraph \<Rightarrow> node \<Rightarrow> digraph" where
  "asegurar_nodo g n =
     (if n \<in> fst ` set (dg_adj g) then g
      else \<lparr>dg_node = dg_node g @ [(n, [])], dg_adj = dg_adj g @ [(n, [])]\<rparr>)"

definition cuerpo_add_edge :: "digraph \<Rightarrow> node \<Rightarrow> node \<Rightarrow> attrs \<Rightarrow> digraph" where
  "cuerpo_add_edge g u v attr =
     (let g1 = asegurar_nodo (asegurar_nodo g u) v;
          nbrs = (case map_of (dg_adj g1) u of None \<Rightarrow> [] | Some ns \<Rightarrow> ns);
          datadict = (case map_of nbrs v of None \<Rightarrow> [] | Some d \<Rightarrow> d)
      in g1\<lparr>dg_adj := AList.update u (AList.update v (dict_update datadict attr) nbrs) (dg_adj g1)\<rparr>)"

text \<open>
  The calls \<^verbatim>\<open>G.add_node(n, **data)\<close> and \<^verbatim>\<open>G.add_edge(u, v, **data)\<close> of the
  simplification: the attribute dict is unpacked into keyword arguments, and a key that
  is the name of one of the method's own parameters (\<^verbatim>\<open>self\<close>, \<^verbatim>\<open>node_for_adding\<close>;
  \<^verbatim>\<open>self\<close>, \<^verbatim>\<open>u_of_edge\<close>, \<^verbatim>\<open>v_of_edge\<close>) raises TypeError before the method runs.
\<close>

definition kw_nodo_admisible :: "attrs \<Rightarrow> bool" where
  "kw_nodo_admisible data \<longleftrightarrow> ''self'' \<notin> fst ` set data \<and> ''node_for_adding'' \<notin> fst ` set data"

definition kw_arista_admisible :: "attrs \<Rightarrow> bool" where
  "kw_arista_admisible data \<longleftrightarrow>
     ''self'' \<notin> fst ` set data \<and> ''u_of_edge'' \<notin> fst ` set data \<and> ''v_of_edge'' \<notin> fst ` set data"

definition add_node :: "digraph \<Rightarrow> node \<Rightarrow> attrs \<Rightarrow> error + digraph" where
  "add_node g n data = (if kw_nodo_admisible data then Inr (cuerpo_add_node g n data) else Inl TypeError)"

definition add_edge :: "digraph \<Rightarrow> node \<Rightarrow> node \<Rightarrow> attrs \<Rightarrow> error + digraph" where
  "add_edge g u v data = (if kw_arista_admisible data then Inr (cuerpo_add_edge g u v data) else Inl TypeError)"

definition dg_wf :: "digraph \<Rightarrow> bool" where
  "dg_wf g \<longleftrightarrow>
     distinct (map fst (dg_adj g)) \<and> map fst (dg_node g) = map fst (dg_adj g) \<and>
     list_all (\<lambda>(u, nbrs). distinct (map fst nbrs)) (dg_adj g)"

subsection \<open>AmbulanceOptimizationModel\<close>

type_synonym costos = "(string \<times> (string \<times> real) list) list"

text \<open>The fields of the model object that construction and extraction read.\<close>

record modelo =
  grafo :: digraph
  emergencias :: "emergencia_completa list"
  nodo_origen :: node
  costos_usuario :: "costos option"
  nodos :: "node list"
  aristas :: "(node \<times> node) list"

text \<open>\<^verbatim>\<open>self.x[i, j, k].varValue\<close> after the solver has run.\<close>

type_synonym valores = "node \<Rightarrow> node \<Rightarrow> nat \<Rightarrow> real"

subsection \<open>optimization\_model: \_reconstruir\_ruta\_flujo\<close>

text \<open>
  The inner \<^verbatim>\<open>for\<close> with \<^verbatim>\<open>break\<close>: the first edge of \<^verbatim>\<open>self.aristas\<close>
  that leaves the current node with a value above 0.5.
\<close>

definition siguiente_nodo :: "(node \<times> node) list \<Rightarrow> valores \<Rightarrow> nat \<Rightarrow> node \<Rightarrow> node option" where
  "siguiente_nodo ars xv k nodo_actual =
     map_option snd (find (\<lambda>(i, j). i = nodo_actual \<and> 1 / 2 < xv i j k) ars)"

function bucle_ruta ::
    "(node \<times> node) list \<Rightarrow> valores \<Rightarrow> nat \<Rightarrow> node \<Rightarrow> node list \<Rightarrow> node \<Rightarrow> node set \<Rightarrow> node list" where
  "bucle_ruta ars xv k destino ruta nodo_actual visitados =
     (if nodo_actual = destino then ruta
      else (case siguiente_nodo ars xv k nodo_actual of
              None \<Rightarrow> ruta
            | Some s \<Rightarrow>
                if s \<in> visitados then ruta
                else bucle_ruta ars xv k destino (ruta @ [s]) s (insert s visitados)))"
  by pat_completeness auto
termination
proof (relation "measure (\<lambda>(ars, xv, k, destino, ruta, nodo_actual, visitados).
                    card (snd ` set ars - visitados))")
  show "wf (measure (\<lambda>(ars, xv, k, destino, ruta, nodo_actual, visitados).
                    card (snd ` set ars - visitados)))"
    by simp
next
  fix ars :: "(node \<times> node) list" and xv :: valores and k :: nat and destino :: node
    and ruta :: "node list" and nodo_actual :: node and visitados :: "node set" and s :: node
  assume sig: "siguiente_nodo ars xv k nodo_actual = Some s" and nuevo: "s \<notin> visitados"
  from sig obtain e where "find (\<lambda>(i, j). i = nodo_actual \<and> 1 / 2 < xv i j k) ars = Some e"
    and "s = snd e"
    by (auto simp: siguiente_nodo_def)
  moreover from this obtain n where "n < length ars" and "ars ! n = e"
    unfolding find_Some_iff by blast
  ultimately have "s \<in> snd ` set ars"
    by (metis image_eqI nth_mem)
  with nuevo have "snd ` set ars - insert s visitados \<subset> snd ` set ars - visitados"
    by auto
  then have "card (snd ` set ars - insert s visitados) < card (snd ` set ars - visitados)"
    by (intro psubset_card_mono) auto
  then show "((ars, xv, k, destino, ruta @ [s], s, insert s visitados),
              (ars, xv, k, destino, ruta, nodo_actual, visitados))
             \<in> measure (\<lambda>(ars, xv, k, destino, ruta, nodo_actual, visitados).
                    card (snd ` set ars - visitados))"
    by simp
qed

declare bucle_ruta.simps [simp del]

definition reconstruir_ruta_flujo :: "modelo \<Rightarrow> valores \<Rightarrow> nat \<Rightarrow> node \<Rightarrow> node list" where
  "reconstruir_ruta_flujo self xv k destino =
     bucle_ruta (aristas self) xv k destino [nodo_origen self] (nodo_origen self) {nodo_origen self}"


subsection \<open>optimization\_model: \_calcular\_uso\_aristas\<close>

record uso_arista =
  num_flujos :: nat
  flujos_ids :: "nat list"
  carga_total :: real
  capacidad :: real
  utilizacion :: real

text \<open>
  The inner loop over \<^verbatim>\<open>enumerate(self.emergencias)\<close>: the flows with a value
  above 0.5 on the edge (ids from 1) and the running sum of their required speeds.
\<close>

fun flujos_en_arista ::
    "valores \<Rightarrow> node \<Rightarrow> node \<Rightarrow> (nat \<times> emergencia_completa) list \<Rightarrow> nat list \<times> real
       \<Rightarrow> nat list \<times> real" where
  "flujos_en_arista xv i j [] acc = acc"
| "flujos_en_arista xv i j ((k, emerg) # rest) (flujos_usando, carga) =
     (if 1 / 2 < xv i j k
      then flujos_en_arista xv i j rest (flujos_usando @ [k + 1], carga + velocidad_requerida emerg)
      else flujos_en_arista xv i j rest (flujos_usando, carga))"

text \<open>A numeric attribute: comparing or dividing by a text value raises TypeError.\<close>

definition num_attr :: "digraph \<Rightarrow> node \<Rightarrow> node \<Rightarrow> string \<Rightarrow> error + real" where
  "num_attr g i j a =
     (case edge_attr g i j a of
        Inl e \<Rightarrow> Inl e
      | Inr (Num c) \<Rightarrow> Inr c
      | Inr (Txt t) \<Rightarrow> Inl TypeError)"

text \<open>Python's \<^verbatim>\<open>/\<close> on floats.\<close>

definition truediv :: "real \<Rightarrow> real \<Rightarrow> error + real" where
  "truediv a b = (if b = 0 then Inl ZeroDivisionError else Inr (a / b))"

text \<open>
  The body of the loop over \<^verbatim>\<open>self.aristas\<close>. The capacity is read only for an
  edge that some flow uses, and the division is guarded by \<^verbatim>\<open>capacidad > 0\<close>.
\<close>

definition uso_de_arista ::
    "modelo \<Rightarrow> valores \<Rightarrow> node \<times> node \<Rightarrow> ((node \<times> node) \<times> uso_arista) list
       \<Rightarrow> error + ((node \<times> node) \<times> uso_arista) list" where
  "uso_de_arista self xv e uso =
     (case e of (i, j) \<Rightarrow>
        (let (flujos_usando, carga) =
               flujos_en_arista xv i j (enumerate 0 (emergencias self)) ([], 0)
         in if flujos_usando \<noteq> [] then
              (case num_attr (grafo self) i j ''capacity'' of
                 Inl err \<Rightarrow> Inl err
               | Inr cap \<Rightarrow>
                   (case (if 0 < cap then truediv carga cap else Inr 0) of
                      Inl err \<Rightarrow> Inl err
                    | Inr u \<Rightarrow>
                        Inr (AList.update (i, j)
                               \<lparr>num_flujos = length flujos_usando, flujos_ids = flujos_usando,
                                carga_total = carga, capacidad = cap, utilizacion = u\<rparr> uso)))
            else Inr uso))"

definition calcular_uso_aristas ::
    "modelo \<Rightarrow> valores \<Rightarrow> error + ((node \<times> node) \<times> uso_arista) list" where
  "calcular_uso_aristas self xv = foldE (uso_de_arista self xv) (aristas self) []"


text \<open>What the extraction stores for an edge that some flow uses.\<close>

definition uso_valido :: "modelo \<Rightarrow> valores \<Rightarrow> (node \<times> node) \<times> uso_arista \<Rightarrow> bool" where
  "uso_valido self xv p = (case p of ((i, j), r) \<Rightarrow>
     flujos_ids r = map Suc (filter (\<lambda>k. 1 / 2 < xv i j k) [0..<length (emergencias self)]) \<and>
     flujos_ids r \<noteq> [] \<and>
     num_flujos r = length (flujos_ids r) \<and>
     carga_total r = (\<Sum>f\<leftarrow>flujos_ids r. velocidad_requerida (emergencias self ! (f - 1))) \<and>
     num_attr (grafo self) i j ''capacity'' = Inr (capacidad r) \<and>
     utilizacion r = (if 0 < capacidad r then carga_total r / capacidad r else 0))"

subsection \<open>optimization\_model: \_simplificar\_a\_digraph and the constructor\<close>

text \<open>
  The search for the best parallel edge: \<^verbatim>\<open>cap = d.get('capacity', 0)\<close>, kept when
  \<^verbatim>\<open>cap > mejor_capacidad\<close>, starting from \<open>-1\<close> and \<^verbatim>\<open>None\<close>.
\<close>

fun elegir_mejor :: "(ekey \<times> attrs) list \<Rightarrow> real \<times> attrs option \<Rightarrow> error + real \<times> attrs option" where
  "elegir_mejor [] acc = Inr acc"
| "elegir_mejor ((k, d) # rest) (mejor_capacidad, mejor_data) =
     (case (case map_of d ''capacity'' of None \<Rightarrow> Num 0 | Some v \<Rightarrow> v) of
        Txt t \<Rightarrow> Inl TypeError
      | Num cap \<Rightarrow>
          if mejor_capacidad < cap then elegir_mejor rest (cap, Some d)
          else elegir_mejor rest (mejor_capacidad, mejor_data))"

text \<open>
  The body of the loop over the multigraph's edges. \<^verbatim>\<open>add_edge(i, j, **None)\<close>
  raises TypeError: that is the case where no parallel edge has a capacity above \<open>-1\<close>.
\<close>

definition simplificar_arista ::
    "multidigraph \<Rightarrow> medge \<Rightarrow> digraph \<times> (node \<times> node) set \<Rightarrow> error + digraph \<times> (node \<times> node) set" where
  "simplificar_arista multi_grafo e st =
     (case e of (i, j, key, data) \<Rightarrow>
        (case st of (grafo_simple, pares_procesados) \<Rightarrow>
           if (i, j) \<notin> pares_procesados then
             (if 1 < number_of_edges multi_grafo i j then
                (case elegir_mejor (paralelas multi_grafo i j) (- 1, None) of
                   Inl err \<Rightarrow> Inl err
                 | Inr (mejor_capacidad, None) \<Rightarrow> Inl TypeError
                 | Inr (mejor_capacidad, Some mejor_data) \<Rightarrow>
                     (case add_edge grafo_simple i j mejor_data of
                        Inl err \<Rightarrow> Inl err
                      | Inr g' \<Rightarrow> Inr (g', insert (i, j) pares_procesados)))
              else
                (case add_edge grafo_simple i j data of
                   Inl err \<Rightarrow> Inl err
                 | Inr g' \<Rightarrow> Inr (g', insert (i, j) pares_procesados)))
           else Inr st))"

definition simplificar_a_digraph :: "multidigraph \<Rightarrow> error + digraph" where
  "simplificar_a_digraph multi_grafo =
     (case foldE (\<lambda>(nodo, data) g. add_node g nodo data) (mg_nodes multi_grafo) dg_vacio of
        Inl err \<Rightarrow> Inl err
      | Inr con_nodos \<Rightarrow>
          (case foldE (simplificar_arista multi_grafo) (mg_edges multi_grafo) (con_nodos, {}) of
             Inl err \<Rightarrow> Inl err
           | Inr (grafo_simple, pares_procesados) \<Rightarrow> Inr grafo_simple))"

text \<open>\<^verbatim>\<open>list(G.edges(data=True))\<close> of the simple graph.\<close>

definition dg_edges_data :: "digraph \<Rightarrow> (node \<times> node \<times> attrs) list" where
  "dg_edges_data g = concat (map (\<lambda>(u, nbrs). map (\<lambda>(v, d). (u, v, d)) nbrs) (dg_adj g))"

text \<open>\<^verbatim>\<open>__init__\<close>: the graph is simplified, then its nodes and edges are listed.\<close>

definition modelo_init ::
    "multidigraph \<Rightarrow> emergencia_completa list \<Rightarrow> node \<Rightarrow> costos option \<Rightarrow> error + modelo" where
  "modelo_init multi_grafo ems origen_n cu =
     (case simplificar_a_digraph multi_grafo of
        Inl err \<Rightarrow> Inl err
      | Inr g \<Rightarrow>
          Inr \<lparr>grafo = g, emergencias = ems, nodo_origen = origen_n, costos_usuario = cu,
               nodos = dg_nodes g, aristas = dg_edges g\<rparr>)"

text \<open>\<^verbatim>\<open>d.get('capacity', 0)\<close> as a number (0 also for a text value).\<close>

definition cap_de :: "attrs \<Rightarrow> real" where
  "cap_de d = (case map_of d ''capacity'' of Some (Num c) \<Rightarrow> c | _ \<Rightarrow> 0)"

subsection \<open>optimization\_model: the MILP (PuLP)\<close>

text \<open>
  A variable \<^verbatim>\<open>x[i, j, k]\<close>, a linear expression as its list of terms, a named
  constraint \<open>terms (\<le> | = | \<ge>) rhs\<close>, and the problem: variables, objective (terms
  and constant) and constraints in the order they were added.
\<close>

datatype lpvar = X node node nat

datatype sentido = LE | EQ | GE

datatype nombre =
    Flujo_Origen nat node
  | Flujo_Destino nat node
  | Flujo_Conservacion nat node
  | Capacidad node node

type_synonym termino = "real \<times> lpvar"

record restriccion =
  r_nombre :: nombre
  r_terminos :: "termino list"
  r_sentido :: sentido
  r_rhs :: real

record lp =
  variables :: "lpvar list"
  objetivo :: "(termino list \<times> real) option"
  restricciones :: "restriccion list"

text \<open>\<^verbatim>\<open>modelo += (constraint, name)\<close>: PuLP refuses a name that is already used.\<close>

definition agregar_restriccion :: "lp \<Rightarrow> restriccion \<Rightarrow> error + lp" where
  "agregar_restriccion m c =
     (if r_nombre c \<in> r_nombre ` set (restricciones m) then Inl PulpError
      else Inr (m\<lparr>restricciones := restricciones m @ [c]\<rparr>))"

text \<open>The value of an expression and the meaning of a constraint under an assignment.\<close>

definition valor_var :: "valores \<Rightarrow> lpvar \<Rightarrow> real" where
  "valor_var xv v = (case v of X i j k \<Rightarrow> xv i j k)"

definition valor_terminos :: "valores \<Rightarrow> termino list \<Rightarrow> real" where
  "valor_terminos xv ts = (\<Sum>(c, v)\<leftarrow>ts. c * valor_var xv v)"

definition satisface :: "valores \<Rightarrow> restriccion \<Rightarrow> bool" where
  "satisface xv c =
     (case r_sentido c of
        LE \<Rightarrow> valor_terminos xv (r_terminos c) \<le> r_rhs c
      | EQ \<Rightarrow> valor_terminos xv (r_terminos c) = r_rhs c
      | GE \<Rightarrow> valor_terminos xv (r_terminos c) \<ge> r_rhs c)"

definition crear_variables :: "modelo \<Rightarrow> lpvar list" where
  "crear_variables self =
     concat (map (\<lambda>k. map (\<lambda>(i, j). X i j k) (aristas self)) [0..<length (emergencias self)])"

text \<open>The default cost table of \<^verbatim>\<open>config/costos.py\<close> (the two fields the model reads).\<close>

definition PRIORIDAD_A_AMBULANCIA :: "(string \<times> string) list" where
  "PRIORIDAD_A_AMBULANCIA =
     [(''leve'', ''TAB_leve''), (''media'', ''TAM_moderada''), (''grave'', ''TAM_grave'')]"

definition COSTOS :: costos where
  "COSTOS =
     [(''TAB_leve'', [(''costo_fijo_activacion'', 35000), (''costo_por_km'', 5585)]),
      (''TAM_moderada'', [(''costo_fijo_activacion'', 60000), (''costo_por_km'', 10534)]),
      (''TAM_grave'', [(''costo_fijo_activacion'', 85000), (''costo_por_km'', 20396)])]"

text \<open>
  \<^verbatim>\<open>if self.costos_usuario and severidad in self.costos_usuario\<close>: the user's row
  under its field name, else the default row of the severity's ambulance type.
\<close>

definition obtener_costo :: "costos option \<Rightarrow> string \<Rightarrow> string \<Rightarrow> string \<Rightarrow> error + real" where
  "obtener_costo cu sev campo_usuario campo_defecto =
     (case (case cu of None \<Rightarrow> None
            | Some d \<Rightarrow> if d \<noteq> [] \<and> sev \<in> fst ` set d then Some d else None) of
        Some d \<Rightarrow>
          (case getitem d sev of Inl e \<Rightarrow> Inl e | Inr fila \<Rightarrow> getitem fila campo_usuario)
      | None \<Rightarrow>
          (case getitem PRIORIDAD_A_AMBULANCIA sev of
             Inl e \<Rightarrow> Inl e
           | Inr tipo_amb \<Rightarrow>
               (case getitem COSTOS tipo_amb of
                  Inl e \<Rightarrow> Inl e
                | Inr fila \<Rightarrow> getitem fila campo_defecto)))"

text \<open>\_definir\_funcion\_objetivo: the fixed costs, then one term per flow and edge.\<close>

definition sumar_costo_fijo :: "modelo \<Rightarrow> emergencia_completa \<Rightarrow> real \<Rightarrow> error + real" where
  "sumar_costo_fijo self emerg costo_fijo_total =
     (case obtener_costo (costos_usuario self) (severidad emerg) ''costo_fijo'' ''costo_fijo_activacion'' of
        Inl e \<Rightarrow> Inl e
      | Inr costo_fijo \<Rightarrow> Inr (costo_fijo_total + costo_fijo))"

definition costo_arista :: "modelo \<Rightarrow> nat \<Rightarrow> real \<Rightarrow> node \<times> node \<Rightarrow> termino list \<Rightarrow> error + termino list" where
  "costo_arista self k costo_km e costo_variable =
     (case e of (i, j) \<Rightarrow>
        (case num_attr (grafo self) i j ''length'' of
           Inl err \<Rightarrow> Inl err
         | Inr distancia_metros \<Rightarrow>
             Inr (costo_variable @ [(distancia_metros / 1000 * costo_km, X i j k)])))"

definition costo_flujo :: "modelo \<Rightarrow> nat \<times> emergencia_completa \<Rightarrow> termino list \<Rightarrow> error + termino list" where
  "costo_flujo self p costo_variable =
     (case p of (k, emerg) \<Rightarrow>
        (case obtener_costo (costos_usuario self) (severidad emerg) ''costo_km'' ''costo_por_km'' of
           Inl e \<Rightarrow> Inl e
         | Inr costo_km \<Rightarrow> foldE (costo_arista self k costo_km) (aristas self) costo_variable))"

definition definir_funcion_objetivo :: "modelo \<Rightarrow> lp \<Rightarrow> error + lp" where
  "definir_funcion_objetivo self m =
     (case foldE (sumar_costo_fijo self) (emergencias self) 0 of
        Inl e \<Rightarrow> Inl e
      | Inr costo_fijo_total \<Rightarrow>
          (case foldE (costo_flujo self) (enumerate 0 (emergencias self)) [] of
             Inl e \<Rightarrow> Inl e
           | Inr costo_variable \<Rightarrow> Inr (m\<lparr>objetivo := Some (costo_variable, costo_fijo_total)\<rparr>)))"

text \<open>
  \_restriccion\_conservacion\_flujo: for flow \<open>k\<close> and node \<open>nodo\<close>, the incoming and
  outgoing variables and the equality chosen by the \<^verbatim>\<open>if / elif / else\<close>.
\<close>

definition entrantes :: "modelo \<Rightarrow> nat \<Rightarrow> node \<Rightarrow> lpvar list" where
  "entrantes self k nodo = map (\<lambda>(i, j). X i nodo k) (filter (\<lambda>(i, j). j = nodo) (aristas self))"

definition salientes :: "modelo \<Rightarrow> nat \<Rightarrow> node \<Rightarrow> lpvar list" where
  "salientes self k nodo = map (\<lambda>(i, j). X nodo j k) (filter (\<lambda>(i, j). i = nodo) (aristas self))"

text \<open>\<^verbatim>\<open>lpSum(a) - lpSum(b)\<close>.\<close>

definition resta :: "lpvar list \<Rightarrow> lpvar list \<Rightarrow> termino list" where
  "resta a b = map (Pair 1) a @ map (Pair (- 1)) b"

definition restriccion_flujo :: "modelo \<Rightarrow> nat \<Rightarrow> node \<Rightarrow> node \<Rightarrow> restriccion" where
  "restriccion_flujo self k dest_k nodo =
     (if nodo = nodo_origen self then
        \<lparr>r_nombre = Flujo_Origen k nodo,
         r_terminos = resta (salientes self k nodo) (entrantes self k nodo),
         r_sentido = EQ, r_rhs = 1\<rparr>
      else if nodo = dest_k then
        \<lparr>r_nombre = Flujo_Destino k nodo,
         r_terminos = resta (entrantes self k nodo) (salientes self k nodo),
         r_sentido = EQ, r_rhs = 1\<rparr>
      else
        \<lparr>r_nombre = Flujo_Conservacion k nodo,
         r_terminos = resta (entrantes self k nodo) (salientes self k nodo),
         r_sentido = EQ, r_rhs = 0\<rparr>)"

definition flujo_de_emergencia :: "modelo \<Rightarrow> nat \<times> emergencia_completa \<Rightarrow> lp \<Rightarrow> error + lp" where
  "flujo_de_emergencia self p m =
     (case p of (k, emerg) \<Rightarrow>
        foldE (\<lambda>nodo m'. agregar_restriccion m' (restriccion_flujo self k (nodo_destino emerg) nodo))
          (nodos self) m)"

definition restriccion_conservacion_flujo :: "modelo \<Rightarrow> lp \<Rightarrow> error + lp" where
  "restriccion_conservacion_flujo self m =
     foldE (flujo_de_emergencia self) (enumerate 0 (emergencias self)) m"

text \<open>\_restriccion\_capacidad\_vias: one constraint per edge of \<^verbatim>\<open>self.aristas\<close>.\<close>

definition demanda_total :: "modelo \<Rightarrow> node \<Rightarrow> node \<Rightarrow> termino list" where
  "demanda_total self i j =
     map (\<lambda>(k, emerg). (velocidad_requerida emerg, X i j k)) (enumerate 0 (emergencias self))"

definition capacidad_de_arista :: "modelo \<Rightarrow> node \<times> node \<Rightarrow> lp \<Rightarrow> error + lp" where
  "capacidad_de_arista self e m =
     (case e of (i, j) \<Rightarrow>
        (case num_attr (grafo self) i j ''capacity'' of
           Inl err \<Rightarrow> Inl err
         | Inr cap \<Rightarrow>
             agregar_restriccion m
               \<lparr>r_nombre = Capacidad i j, r_terminos = demanda_total self i j,
                r_sentido = LE, r_rhs = cap\<rparr>))"

definition restriccion_capacidad_vias :: "modelo \<Rightarrow> lp \<Rightarrow> error + lp" where
  "restriccion_capacidad_vias self m = foldE (capacidad_de_arista self) (aristas self) m"

text \<open>construir\_modelo: variables, objective, flow conservation, capacities.\<close>

definition construir_modelo :: "modelo \<Rightarrow> error + lp" where
  "construir_modelo self =
     (case definir_funcion_objetivo self
             \<lparr>variables = crear_variables self, objetivo = None, restricciones = []\<rparr> of
        Inl e \<Rightarrow> Inl e
      | Inr m1 \<Rightarrow>
          (case restriccion_conservacion_flujo self m1 of
             Inl e \<Rightarrow> Inl e
           | Inr m2 \<Rightarrow> restriccion_capacidad_vias self m2))"


subsection \<open>Notions used to state the properties\<close>

text \<open>
  A capacity the search for the best parallel edge can handle: absent (read as 0) or a
  number above the starting value \<open>-1\<close>; every positive speed is one.
\<close>

definition capacidad_admisible :: "attrs \<Rightarrow> bool" where
  "capacidad_admisible d =
     (case map_of d ''capacity'' of None \<Rightarrow> True | Some (Num c) \<Rightarrow> - 1 < c | Some (Txt t) \<Rightarrow> False)"

text \<open>
  A sequence of draws in which, after any position, every index below \<open>n\<close> is drawn
  again; on such a sequence the search for a new position ends.
\<close>

definition recurrente :: "nat \<Rightarrow> nat draws \<Rightarrow> bool" where
  "recurrente n rs \<longleftrightarrow> (\<forall>p. \<forall>j<n. \<exists>q. rs (p + q) mod n = j)"

text \<open>
  No node or edge attribute of the multigraph bears the name of a parameter of the method it
  is passed to as a keyword.
\<close>

definition atributos_pasables :: "multidigraph \<Rightarrow> bool" where
  "atributos_pasables mg \<longleftrightarrow>
     list_all (\<lambda>(n, d). kw_nodo_admisible d) (mg_nodes mg) \<and>
     list_all (\<lambda>(u, v, k, d). kw_arista_admisible d) (mg_edges mg)"

text \<open>The ordered pairs joined by some edge of a list of edges.\<close>

definition pares_de :: "medge list \<Rightarrow> (node \<times> node) set" where
  "pares_de es = (\<lambda>(i, j, k, d). (i, j)) ` set es"

text \<open>The attributes the simplification keeps for the ordered pair \<open>(i, j)\<close>.\<close>

definition dato_elegido :: "multidigraph \<Rightarrow> node \<Rightarrow> node \<Rightarrow> attrs option" where
  "dato_elegido mg i j =
     (case paralelas mg i j of
        [] \<Rightarrow> None
      | [(k, d)] \<Rightarrow> Some d
      | ps \<Rightarrow> (case elegir_mejor ps (- 1, None) of Inr (mc, Some d) \<Rightarrow> Some d | _ \<Rightarrow> None))"

text \<open>
  The cost of a severity as the specification words it: the user's row when the user's
  table has one for the severity, else the default row of the severity's ambulance type.
\<close>

definition costo_especificado :: "costos option \<Rightarrow> string \<Rightarrow> string \<Rightarrow> string \<Rightarrow> real option" where
  "costo_especificado cu sev campo_usuario campo_defecto =
     (case (case cu of None \<Rightarrow> None | Some d \<Rightarrow> map_of d sev) of
        Some fila \<Rightarrow> map_of fila campo_usuario
      | None \<Rightarrow>
          (case map_of PRIORIDAD_A_AMBULANCIA sev of
             None \<Rightarrow> None
           | Some tipo_amb \<Rightarrow>
               (case map_of COSTOS tipo_amb of
                  None \<Rightarrow> None
                | Some fila \<Rightarrow> map_of fila campo_defecto)))"

text \<open>The capacity constraint of an edge, and the flow constraints in the order of the loops.\<close>

definition es_restriccion_capacidad :: "modelo \<Rightarrow> node \<times> node \<Rightarrow> restriccion \<Rightarrow> bool" where
  "es_restriccion_capacidad self e c =
     (case e of (i, j) \<Rightarrow>
        \<exists>cap. num_attr (grafo self) i j ''capacity'' = Inr cap \<and>
              c = \<lparr>r_nombre = Capacidad i j, r_terminos = demanda_total self i j,
                   r_sentido = LE, r_rhs = cap\<rparr>)"

definition restricciones_flujo :: "modelo \<Rightarrow> (nat \<times> emergencia_completa) list \<Rightarrow> restriccion list" where
  "restricciones_flujo self kes =
     concat (map (\<lambda>(k, emerg). map (restriccion_flujo self k (nodo_destino emerg)) (nodos self)) kes)"

definition nombres_distintos :: "lp \<Rightarrow> bool" where
  "nombres_distintos m = distinct (map r_nombre (restricciones m))"

text \<open>The cost of a severity and the length of an edge as numbers (0 where undefined).\<close>

definition costo_de :: "modelo \<Rightarrow> string \<Rightarrow> string \<Rightarrow> string \<Rightarrow> real" where
  "costo_de self a b sev =
     (case costo_especificado (costos_usuario self) sev a b of Some c \<Rightarrow> c | None \<Rightarrow> 0)"

definition longitud_de :: "modelo \<Rightarrow> node \<Rightarrow> node \<Rightarrow> real" where
  "longitud_de self i j = (case num_attr (grafo self) i j ''length'' of Inr l \<Rightarrow> l | Inl e \<Rightarrow> 0)"

subsection \<open>A small instance\<close>

text \<open>
  Three nodes; two parallel edges from 1 to 2 (capacities 60 and 90) and one edge from
  2 to 3 of capacity 0; two emergencies that require 40 km/h each.
\<close>

definition ejemplo_multigrafo :: multidigraph where
  "ejemplo_multigrafo =
     \<lparr>mg_nodes = [(1, [(''y'', Num 6), (''x'', Num (- 75))]),
                  (2, [(''y'', Num 7), (''x'', Num (- 75))]),
                  (3, [(''y'', Num 8), (''x'', Num (- 75))])],
      mg_edges = [(1, 2, 0, [(''length'', Num 1000), (''capacity'', Num 60)]),
                  (1, 2, 1, [(''length'', Num 1200), (''capacity'', Num 90)]),
                  (2, 3, 0, [(''length'', Num 500), (''capacity'', Num 0)])]\<rparr>"

text \<open>
  Five nodes: 1 to 4 are joined in both directions with each other, so each has three
  predecessors and three successors; node 5 only has a street into node 1.
\<close>

definition ejemplo_barrio :: multidigraph where
  "ejemplo_barrio =
     \<lparr>mg_nodes = [(1, [(''y'', Num 6), (''x'', Num (- 75))]),
                  (2, [(''y'', Num 7), (''x'', Num (- 75))]),
                  (3, [(''y'', Num 8), (''x'', Num (- 75))]),
                  (4, [(''y'', Num 9), (''x'', Num (- 75))]),
                  (5, [(''y'', Num 10), (''x'', Num (- 75))])],
      mg_edges = [(1, 2, 0, []), (1, 3, 0, []), (1, 4, 0, []),
                  (2, 1, 0, []), (2, 3, 0, []), (2, 4, 0, []),
                  (3, 1, 0, []), (3, 2, 0, []), (3, 4, 0, []),
                  (4, 1, 0, []), (4, 2, 0, []), (4, 3, 0, []),
                  (5, 1, 0, [])]\<rparr>"

text \<open>Twenty-two nodes without streets: more candidates than \<^verbatim>\<open>setsize\<close>.\<close>

definition ejemplo_aldea :: multidigraph where
  "ejemplo_aldea =
     \<lparr>mg_nodes = map (\<lambda>n. (n, [(''y'', Num 6), (''x'', Num (- 75))])) [1..22], mg_edges = []\<rparr>"

definition ejemplo_llamadas :: "emergencia list" where
  "ejemplo_llamadas =
     [\<lparr>eid = 1, severidad = ''media'', velocidad_requerida = 40, ambulancia_id = 1,
       origen = ''clinica''\<rparr>,
      \<lparr>eid = 2, severidad = ''leve'', velocidad_requerida = 35, ambulancia_id = 2,
       origen = ''clinica''\<rparr>]"

definition ejemplo_emergencias :: "emergencia_completa list" where
  "ejemplo_emergencias =
     [\<lparr>eid = 1, severidad = ''leve'', velocidad_requerida = 40, ambulancia_id = 1,
       origen = ''clinica'', nodo_destino = 2, latitud = Num 7, longitud = Num (- 75)\<rparr>,
      \<lparr>eid = 2, severidad = ''grave'', velocidad_requerida = 40, ambulancia_id = 2,
       origen = ''clinica'', nodo_destino = 3, latitud = Num 8, longitud = Num (- 75)\<rparr>]"

definition ejemplo_grafo :: digraph where
  "ejemplo_grafo =
     \<lparr>dg_node = [(1, [(''y'', Num 6), (''x'', Num (- 75))]),
                 (2, [(''y'', Num 7), (''x'', Num (- 75))]),
                 (3, [(''y'', Num 8), (''x'', Num (- 75))])],
      dg_adj = [(1, [(2, [(''length'', Num 1200), (''capacity'', Num 90)])]),
                (2, [(3, [(''length'', Num 500), (''capacity'', Num 0)])]),
                (3, [])]\<rparr>"

definition ejemplo_modelo :: modelo where
  "ejemplo_modelo =
     \<lparr>grafo = ejemplo_grafo, emergencias = ejemplo_emergencias, nodo_origen = 1,
      costos_usuario = None, nodos = [1, 2, 3], aristas = [(1, 2), (2, 3)]\<rparr>"

text \<open>Both flows use the edge from 1 to 2; the second one goes on to 3.\<close>

definition ejemplo_valores :: valores where
  "ejemplo_valores =
     (\<lambda>i j k. if (i, j) = (1, 2) then 1 else if (i, j, k) = (2, 3, 1) then 1 else 0)"


text \<open>The MILP built for the instance.\<close>

definition ejemplo_lp :: lp where
  "ejemplo_lp =
     \<lparr>variables = [X 1 2 0, X 2 3 0, X 1 2 1, X 2 3 1],
      objetivo =
        Some ([(6702, X 1 2 0), (5585 / 2, X 2 3 0), (122376 / 5, X 1 2 1), (10198, X 2 3 1)],
              120000),
      restricciones =
        [\<lparr>r_nombre = Flujo_Origen 0 1, r_terminos = [(1, X 1 2 0)], r_sentido = EQ, r_rhs = 1\<rparr>,
         \<lparr>r_nombre = Flujo_Destino 0 2, r_terminos = [(1, X 1 2 0), (- 1, X 2 3 0)],
          r_sentido = EQ, r_rhs = 1\<rparr>,
         \<lparr>r_nombre = Flujo_Conservacion 0 3, r_terminos = [(1, X 2 3 0)],
          r_sentido = EQ, r_rhs = 0\<rparr>,
         \<lparr>r_nombre = Flujo_Origen 1 1, r_terminos = [(1, X 1 2 1)], r_sentido = EQ, r_rhs = 1\<rparr>,
         \<lparr>r_nombre = Flujo_Conservacion 1 2, r_terminos = [(1, X 1 2 1), (- 1, X 2 3 1)],
          r_sentido = EQ, r_rhs = 0\<rparr>,
         \<lparr>r_nombre = Flujo_Destino 1 3, r_terminos = [(1, X 2 3 1)], r_sentido = EQ, r_rhs = 1\<rparr>,
         \<lparr>r_nombre = Capacidad 1 2, r_terminos = [(40, X 1 2 0), (40, X 1 2 1)],
          r_sentido = LE, r_rhs = 90\<rparr>,
         \<lparr>r_nombre = Capacidad 2 3, r_terminos = [(40, X 2 3 0), (40, X 2 3 1)],
          r_sentido = LE, r_rhs = 0\<rparr>]\<rparr>"

text \<open>The same graph with a single emergency whose destination is the origin node.\<close>

definition ejemplo_destino_en_origen :: modelo where
  "ejemplo_destino_en_origen =
     \<lparr>grafo = ejemplo_grafo,
      emergencias =
        [\<lparr>eid = 1, severidad = ''media'', velocidad_requerida = 40, ambulancia_id = 1,
          origen = ''clinica'', nodo_destino = 1, latitud = Num 6, longitud = Num (- 75)\<rparr>],
      nodo_origen = 1, costos_usuario = None, nodos = [1, 2, 3], aristas = [(1, 2), (2, 3)]\<rparr>"


text \<open>The same streets without the parallel edge.\<close>

definition ejemplo_multigrafo_simple :: multidigraph where
  "ejemplo_multigrafo_simple =
     \<lparr>mg_nodes = [(1, [(''y'', Num 6), (''x'', Num (- 75))]),
                  (2, [(''y'', Num 7), (''x'', Num (- 75))]),
                  (3, [(''y'', Num 8), (''x'', Num (- 75))])],
      mg_edges = [(1, 2, 0, [(''length'', Num 1200), (''capacity'', Num 90)]),
                  (2, 3, 0, [(''length'', Num 500), (''capacity'', Num 0)])]\<rparr>"


section \<open>Properties\<close>

subsection \<open>Capacity assignment\<close>

lemma asignar_aristas_forma:
  "asignar_aristas c_min c_max es rs =
     (map (\<lambda>(n, (u, v, k, d)). (u, v, k, AList.update ''capacity'' (Num (c_min + (c_max - c_min) * rs n)) d))
          (enumerate 0 es),
      map (\<lambda>n. c_min + (c_max - c_min) * rs n) [0..<length es])"
proof (induction es arbitrary: rs)
  case Nil
  then show ?case by simp
next
  case (Cons e es)
  obtain u v k d where e: "e = (u, v, k, d)" by (cases e) auto
  have sh: "map (\<lambda>n. c_min + (c_max - c_min) * rs n) [0..<Suc (length es)]
      = (c_min + (c_max - c_min) * rs 0) # map (\<lambda>n. c_min + (c_max - c_min) * rs (Suc n)) [0..<length es]"
    by (simp add: upt_conv_Cons map_Suc_upt [symmetric] del: upt_Suc)
  show ?case
    unfolding e
    by (simp add: Cons.IH random_uniform_def resto_def enumerate_Suc_eq [of 0] split_def sh
        del: upt_Suc)
qed

lemma asignar_capacidades_forma:
  "asignar_capacidades_aleatorias gr c_min c_max rs =
     (if mg_edges gr = [] then Inl ValueError
      else Inr (gr\<lparr>mg_edges :=
        map (\<lambda>(n, (u, v, k, d)). (u, v, k, AList.update ''capacity'' (Num (c_min + (c_max - c_min) * rs n)) d))
          (enumerate 0 (mg_edges gr))\<rparr>))"
  by (simp add: asignar_capacidades_aleatorias_def asignar_aristas_forma)

lemma uniforme_entre:
  fixes a b r :: real
  assumes "0 \<le> r" "r < 1"
  shows "min a b \<le> a + (b - a) * r \<and> a + (b - a) * r \<le> max a b"
proof (cases "a \<le> b")
  case True
  have "0 \<le> (b - a) * r" using True assms by simp
  moreover have "(b - a) * r \<le> (b - a) * 1" using True assms by (intro mult_left_mono) auto
  ultimately show ?thesis using True by (simp add: min_def max_def)
next
  case False
  have "(a - b) * r \<le> (a - b) * 1" using False assms by (intro mult_left_mono) auto
  moreover have "0 \<le> (a - b) * r" using False assms by simp
  ultimately show ?thesis using False by (simp add: min_def max_def algebra_simps)
qed

text \<open>
  C7 (as stated): the assignment fails with InvalidRange whenever \<open>C_min \<ge> C_max\<close> or a
  bound is non-positive, and then assigns nothing. The code has no such check: with
  \<open>C_min = 100 > C_max = 30\<close> it returns normally and the edge gets capacity 65; with
  the non-positive bound \<open>C_min = -10\<close> the edge gets capacity 5.
\<close>

theorem asignar_capacidades_rango_invalido_counterexample:
  "asignar_capacidades_aleatorias
     \<lparr>mg_nodes = [(1, []), (2, [])], mg_edges = [(1, 2, 0, [(''length'', Num 100)])]\<rparr>
     100 30 (\<lambda>_. 1 / 2)
   = Inr \<lparr>mg_nodes = [(1, []), (2, [])],
          mg_edges = [(1, 2, 0, [(''length'', Num 100), (''capacity'', Num 65)])]\<rparr>
   \<and> asignar_capacidades_aleatorias
     \<lparr>mg_nodes = [(1, []), (2, [])], mg_edges = [(1, 2, 0, [(''length'', Num 100)])]\<rparr>
     (- 10) 20 (\<lambda>_. 1 / 2)
   = Inr \<lparr>mg_nodes = [(1, []), (2, [])],
          mg_edges = [(1, 2, 0, [(''length'', Num 100), (''capacity'', Num 5)])]\<rparr>"
  by (simp add: asignar_capacidades_aleatorias_def random_uniform_def resto_def)

text \<open>
  C7 (amended): the assignment checks no range. For every \<open>C_min\<close> and \<open>C_max\<close>, also
  with \<open>C_min \<ge> C_max\<close> or non-positive bounds, on a graph with at least one edge it
  returns normally and every edge carries a capacity between the two bounds.
\<close>

theorem asignar_capacidades_sin_validacion:
  assumes "mg_edges gr \<noteq> []" and "\<forall>n. 0 \<le> rs n \<and> rs n < 1"
  shows "\<exists>g'. asignar_capacidades_aleatorias gr c_min c_max rs = Inr g' \<and>
           list_all (\<lambda>(u, v, k, c). \<exists>x. c = Some (Num x) \<and> min c_min c_max \<le> x \<and> x \<le> max c_min c_max)
             (capacidades_de g')"
proof -
  have "list_all (\<lambda>(u, v, k, c). \<exists>x. c = Some (Num x) \<and> min c_min c_max \<le> x \<and> x \<le> max c_min c_max)
      (map (\<lambda>(u, v, k, d). (u, v, k, map_of d ''capacity''))
        (map (\<lambda>(n, (u, v, k, d)). (u, v, k, AList.update ''capacity'' (Num (c_min + (c_max - c_min) * rs n)) d))
          (enumerate 0 (mg_edges gr))))"
    using assms(2) uniforme_entre [of _ c_min c_max]
    by (auto simp: list_all_iff update_conv')
  then show ?thesis
    using assms(1) by (simp add: asignar_capacidades_forma capacidades_de_def)
qed

theorem asignar_capacidades_sin_validacion_witness:
  "\<exists>g'. asignar_capacidades_aleatorias
          \<lparr>mg_nodes = [(1, []), (2, [])], mg_edges = [(1, 2, 0, [(''length'', Num 100)])]\<rparr>
          100 30 (\<lambda>_. 1 / 2) = Inr g' \<and>
        list_all (\<lambda>(u, v, k, c). \<exists>x. c = Some (Num x) \<and> min 100 30 \<le> x \<and> x \<le> max 100 30)
          (capacidades_de g')"
  using asignar_capacidades_sin_validacion
    [of "\<lparr>mg_nodes = [(1, []), (2, [])], mg_edges = [(1, 2, 0, [(''length'', Num 100)])]\<rparr>"
        "\<lambda>_. 1 / 2" 100 30]
  by simp

text \<open>
  C8 (as stated): one draw per ordered pair, shared by all its parallel edges. The code
  draws once per edge \<open>(u, v, key)\<close>: two parallel edges from 1 to 2 receive the
  capacities 30 and 65.
\<close>

theorem asignar_capacidades_paralelas_counterexample:
  "asignar_capacidades_aleatorias
     \<lparr>mg_nodes = [(1, []), (2, [])], mg_edges = [(1, 2, 0, []), (1, 2, 1, [])]\<rparr>
     30 100 (\<lambda>n. if n = 0 then 0 else 1 / 2)
   = Inr \<lparr>mg_nodes = [(1, []), (2, [])],
          mg_edges = [(1, 2, 0, [(''capacity'', Num 30)]), (1, 2, 1, [(''capacity'', Num 65)])]\<rparr>"
  by (simp add: asignar_capacidades_aleatorias_def random_uniform_def resto_def)

text \<open>
  C8 (amended): the assignment draws exactly one capacity per edge \<open>(u, v, key)\<close> of the
  multigraph: the n-th edge in iteration order receives
  \<open>C_min + (C_max - C_min) * r\<^sub>n\<close> for the n-th draw \<open>r\<^sub>n\<close>, and nothing else changes.
  Parallel edges therefore carry independent draws.
\<close>

theorem asignar_capacidades_una_por_arista:
  assumes "mg_edges gr \<noteq> []"
  shows "\<exists>g'. asignar_capacidades_aleatorias gr c_min c_max rs = Inr g' \<and>
           mg_nodes g' = mg_nodes gr \<and>
           length (mg_edges g') = length (mg_edges gr) \<and>
           (\<forall>n < length (mg_edges gr).
              (case mg_edges gr ! n of (u, v, k, d) \<Rightarrow>
                 mg_edges g' ! n =
                   (u, v, k, AList.update ''capacity'' (Num (c_min + (c_max - c_min) * rs n)) d)))"
  using assms
  by (auto simp: asignar_capacidades_forma nth_enumerate_eq split: prod.splits)

theorem asignar_capacidades_una_por_arista_witness:
  "\<exists>g'. asignar_capacidades_aleatorias
          \<lparr>mg_nodes = [(1, []), (2, [])], mg_edges = [(1, 2, 0, []), (1, 2, 1, [])]\<rparr>
          30 100 (\<lambda>n. if n = 0 then 0 else 1 / 2) = Inr g' \<and>
        mg_edges g' ! 0 = (1, 2, 0, [(''capacity'', Num 30)]) \<and>
        mg_edges g' ! 1 = (1, 2, 1, [(''capacity'', Num 65)])"
proof -
  from asignar_capacidades_una_por_arista
    [of "\<lparr>mg_nodes = [(1, []), (2, [])], mg_edges = [(1, 2, 0, []), (1, 2, 1, [])]\<rparr>"
        30 100 "\<lambda>n. if n = 0 then 0 else 1 / 2"]
  obtain g' where g: "asignar_capacidades_aleatorias
          \<lparr>mg_nodes = [(1, []), (2, [])], mg_edges = [(1, 2, 0, []), (1, 2, 1, [])]\<rparr>
          30 100 (\<lambda>n. if n = 0 then 0 else 1 / 2) = Inr g'"
    and n: "\<forall>n < 2. (case [(1, 2, 0, []), (1, 2, 1, [])] ! n of (u, v, k, d) \<Rightarrow>
                 mg_edges g' ! n =
                   (u, v, k, AList.update ''capacity''
                      (Num (30 + (100 - 30) * (if n = 0 then 0 else 1 / 2))) d))"
    by auto
  from n have "mg_edges g' ! 0 = (1, 2, 0, [(''capacity'', Num 30)])"
    by (drule_tac x = 0 in spec) simp
  moreover from n have "mg_edges g' ! 1 = (1, 2, 1, [(''capacity'', Num 65)])"
    by (drule_tac x = 1 in spec) simp
  ultimately show ?thesis using g by blast
qed

subsection \<open>Route reconstruction\<close>

lemma find_SomeD:
  "find P xs = Some x \<Longrightarrow> x \<in> set xs" "find P xs = Some x \<Longrightarrow> P x"
  by (induction xs) (auto split: if_splits)

lemma bucle_ruta_inv:
  assumes "ruta \<noteq> []" "last ruta = nodo_actual" "set ruta = visitados" "distinct ruta"
    "successively (\<lambda>a b. (a, b) \<in> set ars \<and> 1 / 2 < xv a b k) ruta"
  shows "hd (bucle_ruta ars xv k destino ruta nodo_actual visitados) = hd ruta \<and>
         bucle_ruta ars xv k destino ruta nodo_actual visitados \<noteq> [] \<and>
         distinct (bucle_ruta ars xv k destino ruta nodo_actual visitados) \<and>
         successively (\<lambda>a b. (a, b) \<in> set ars \<and> 1 / 2 < xv a b k)
           (bucle_ruta ars xv k destino ruta nodo_actual visitados)"
  using assms
proof (induction ars xv k destino ruta nodo_actual visitados rule: bucle_ruta.induct)
  case (1 ars xv k destino ruta nodo_actual visitados)
  note eq = bucle_ruta.simps [of ars xv k destino ruta nodo_actual visitados]
  show ?case
  proof (cases "nodo_actual = destino")
    case True
    then show ?thesis unfolding eq using "1.prems" by simp
  next
    case False
    show ?thesis
    proof (cases "siguiente_nodo ars xv k nodo_actual")
      case None
      then show ?thesis unfolding eq using False "1.prems" by simp
    next
      case (Some s)
      show ?thesis
      proof (cases "s \<in> visitados")
        case True
        then show ?thesis unfolding eq using False Some "1.prems" by simp
      next
        case nuevo: False
        from Some obtain e where f: "find (\<lambda>(i, j). i = nodo_actual \<and> 1 / 2 < xv i j k) ars = Some e"
          and se: "s = snd e"
          by (auto simp: siguiente_nodo_def)
        obtain a b where e: "e = (a, b)" by (cases e)
        from find_SomeD(2) [OF f] have "a = nodo_actual \<and> 1 / 2 < xv a b k"
          unfolding e prod.case .
        then have ab: "a = nodo_actual" "1 / 2 < xv a b k"
          by blast+
        from se have sb: "b = s" unfolding e by simp
        from find_SomeD(1) [OF f] have arista: "(nodo_actual, s) \<in> set ars"
          unfolding e ab(1) sb .
        from ab(2) have val: "1 / 2 < xv nodo_actual s k"
          unfolding ab(1) sb .
        have "successively (\<lambda>a b. (a, b) \<in> set ars \<and> 1 / 2 < xv a b k) (ruta @ [s])"
          using "1.prems" arista val by (simp add: successively_append_iff)
        moreover have "distinct (ruta @ [s])" using "1.prems" nuevo by simp
        moreover have "set (ruta @ [s]) = insert s visitados" using "1.prems" by auto
        ultimately have "hd (bucle_ruta ars xv k destino (ruta @ [s]) s (insert s visitados)) = hd (ruta @ [s]) \<and>
         bucle_ruta ars xv k destino (ruta @ [s]) s (insert s visitados) \<noteq> [] \<and>
         distinct (bucle_ruta ars xv k destino (ruta @ [s]) s (insert s visitados)) \<and>
         successively (\<lambda>a b. (a, b) \<in> set ars \<and> 1 / 2 < xv a b k)
           (bucle_ruta ars xv k destino (ruta @ [s]) s (insert s visitados))"
          using "1.IH" [OF False Some nuevo] by simp
        moreover have "bucle_ruta ars xv k destino ruta nodo_actual visitados =
            bucle_ruta ars xv k destino (ruta @ [s]) s (insert s visitados)"
          unfolding eq using False Some nuevo by simp
        moreover have "hd (ruta @ [s]) = hd ruta" using "1.prems"(1) by simp
        ultimately show ?thesis by simp
      qed
    qed
  qed
qed

text \<open>
  C6: for every assignment of values to the variables, the reconstruction of a route
  returns (the loop is a total function, its termination proved with the definition) a
  list that begins at the origin, repeats no node, and whose consecutive pairs are edges
  of \<^verbatim>\<open>self.aristas\<close> with a value above 0.5 for that flow.
\<close>

theorem reconstruir_ruta_flujo_camino_simple:
  "reconstruir_ruta_flujo self xv k destino \<noteq> [] \<and>
   hd (reconstruir_ruta_flujo self xv k destino) = nodo_origen self \<and>
   distinct (reconstruir_ruta_flujo self xv k destino) \<and>
   successively (\<lambda>a b. (a, b) \<in> set (aristas self) \<and> 1 / 2 < xv a b k)
     (reconstruir_ruta_flujo self xv k destino)"
  unfolding reconstruir_ruta_flujo_def
  using bucle_ruta_inv [of "[nodo_origen self]" "nodo_origen self" "{nodo_origen self}" "aristas self" xv k destino]
  by simp

subsection \<open>Edge usage\<close>

lemma flujos_en_arista_forma:
  "flujos_en_arista xv i j (enumerate n ems) (fl, c) =
     (fl @ map Suc (filter (\<lambda>k. 1 / 2 < xv i j k) [n..<n + length ems]),
      c + (\<Sum>k\<leftarrow>filter (\<lambda>k. 1 / 2 < xv i j k) [n..<n + length ems]. velocidad_requerida (ems ! (k - n))))"
proof (induction ems arbitrary: n fl c)
  case Nil
  then show ?case by simp
next
  case (Cons e ems)
  have up: "[n..<n + length (e # ems)] = n # [Suc n..<Suc n + length ems]"
    using upt_rec [of n "n + length (e # ems)"] by simp
  have ix: "(\<Sum>k\<leftarrow>filter (\<lambda>k. 1 / 2 < xv i j k) [Suc n..<Suc n + length ems].
               velocidad_requerida ((e # ems) ! (k - n)))
        = (\<Sum>k\<leftarrow>filter (\<lambda>k. 1 / 2 < xv i j k) [Suc n..<Suc n + length ems].
               velocidad_requerida (ems ! (k - Suc n)))"
    by (rule arg_cong [where f = sum_list], rule map_cong) (auto simp: nth_Cons' simp del: upt_Suc)
  show ?case
    unfolding up using ix by (simp add: Cons.IH del: upt_Suc)
qed

lemma uso_de_arista_sin_flujos:
  assumes "filter (\<lambda>k. 1 / 2 < xv i j k) [0..<length (emergencias self)] = []"
  shows "uso_de_arista self xv (i, j) uso = Inr uso"
  using assms by (simp add: uso_de_arista_def flujos_en_arista_forma [where n = 0, simplified])

lemma uso_de_arista_con_flujos:
  assumes "filter (\<lambda>k. 1 / 2 < xv i j k) [0..<length (emergencias self)] \<noteq> []"
    and "num_attr (grafo self) i j ''capacity'' = Inr cap"
  shows "\<exists>r. uso_de_arista self xv (i, j) uso = Inr (AList.update (i, j) r uso) \<and>
             uso_valido self xv ((i, j), r)"
proof -
  let ?ks = "filter (\<lambda>k. 1 / 2 < xv i j k) [0..<length (emergencias self)]"
  let ?carga = "\<Sum>k\<leftarrow>?ks. velocidad_requerida (emergencias self ! k)"
  let ?r = "\<lparr>num_flujos = length (map Suc ?ks), flujos_ids = map Suc ?ks,
             carga_total = ?carga, capacidad = cap,
             utilizacion = (if 0 < cap then ?carga / cap else 0)\<rparr>"
  have fl: "flujos_en_arista xv i j (enumerate 0 (emergencias self)) ([], 0) = (map Suc ?ks, ?carga)"
    by (simp add: flujos_en_arista_forma)
  have "uso_de_arista self xv (i, j) uso = Inr (AList.update (i, j) ?r uso)"
    using assms by (simp add: uso_de_arista_def fl truediv_def)
  moreover have "uso_valido self xv ((i, j), ?r)"
    using assms by (simp add: uso_valido_def comp_def)
  ultimately show ?thesis by blast
qed

lemma set_alist_update:
  "set (AList.update k v al) \<subseteq> insert (k, v) (set al)"
  by (induction al) auto

lemma filter_upt_vacio:
  "filter P [0..<n] = [] \<longleftrightarrow> \<not> (\<exists>k<n. P k)"
  by (auto simp: filter_empty_conv)

lemma uso_bucle:
  assumes "\<forall>(i, j) \<in> set ars. (\<exists>k<length (emergencias self). 1 / 2 < xv i j k) \<longrightarrow>
             (\<exists>c. num_attr (grafo self) i j ''capacity'' = Inr c)"
    and "distinct (map fst uso)" and "\<forall>p \<in> set uso. uso_valido self xv p"
  shows "\<exists>uso'. foldE (uso_de_arista self xv) ars uso = Inr uso' \<and>
           distinct (map fst uso') \<and> (\<forall>p \<in> set uso'. uso_valido self xv p) \<and>
           fst ` set uso' = fst ` set uso \<union>
             {(i, j) \<in> set ars. \<exists>k<length (emergencias self). 1 / 2 < xv i j k}"
  using assms
proof (induction ars arbitrary: uso)
  case Nil
  then show ?case by simp
next
  case (Cons e ars)
  obtain i j where e: "e = (i, j)" by (cases e)
  show ?case
  proof (cases "\<exists>k<length (emergencias self). 1 / 2 < xv i j k")
    case False
    then have paso: "uso_de_arista self xv (i, j) uso = Inr uso"
      by (intro uso_de_arista_sin_flujos) (simp add: filter_upt_vacio)
    from Cons.IH [of uso] Cons.prems obtain uso' where
      "foldE (uso_de_arista self xv) ars uso = Inr uso'" "distinct (map fst uso')"
      "\<forall>p \<in> set uso'. uso_valido self xv p"
      "fst ` set uso' = fst ` set uso \<union>
             {(i, j) \<in> set ars. \<exists>k<length (emergencias self). 1 / 2 < xv i j k}"
      by auto
    then show ?thesis using False paso unfolding e by auto
  next
    case True
    with Cons.prems(1) obtain c where c: "num_attr (grafo self) i j ''capacity'' = Inr c"
      unfolding e by auto
    from True have ne: "filter (\<lambda>k. 1 / 2 < xv i j k) [0..<length (emergencias self)] \<noteq> []"
      by (simp add: filter_upt_vacio)
    from uso_de_arista_con_flujos [of xv i j self c uso] ne c obtain r where
      paso: "uso_de_arista self xv (i, j) uso = Inr (AList.update (i, j) r uso)"
      and val: "uso_valido self xv ((i, j), r)"
      by blast
    have d: "distinct (map fst (AList.update (i, j) r uso))"
      using Cons.prems(2) by (rule distinct_update)
    have v: "\<forall>p \<in> set (AList.update (i, j) r uso). uso_valido self xv p"
      using Cons.prems(3) val set_alist_update [of "(i, j)" r uso] by blast
    have a: "\<forall>(i, j) \<in> set ars. (\<exists>k<length (emergencias self). 1 / 2 < xv i j k) \<longrightarrow>
             (\<exists>c. num_attr (grafo self) i j ''capacity'' = Inr c)"
      using Cons.prems(1) by simp
    from Cons.IH [OF a d v] obtain uso' where
      "foldE (uso_de_arista self xv) ars (AList.update (i, j) r uso) = Inr uso'"
      "distinct (map fst uso')"
      "\<forall>p \<in> set uso'. uso_valido self xv p"
      "fst ` set uso' = fst ` set (AList.update (i, j) r uso) \<union>
             {(i, j) \<in> set ars. \<exists>k<length (emergencias self). 1 / 2 < xv i j k}"
      by blast
    then show ?thesis using True paso unfolding e by (auto simp: dom_update)
  qed
qed

text \<open>
  C10: for every assignment of values, provided each used edge has a numeric capacity
  (as building the MILP requires), the edge usage is computed without error, in
  particular without a division by zero; its keys are exactly the edges of
  \<^verbatim>\<open>self.aristas\<close> that some flow uses (value above 0.5); for each, the flows listed
  are those flows (numbered from 1), the load is the sum of their required speeds, and the
  utilization is load / capacity when the capacity is positive and 0 otherwise.
\<close>

theorem calcular_uso_aristas_correcto:
  assumes "\<forall>(i, j) \<in> set (aristas self). (\<exists>k<length (emergencias self). 1 / 2 < xv i j k) \<longrightarrow>
             (\<exists>c. num_attr (grafo self) i j ''capacity'' = Inr c)"
  shows "\<exists>uso. calcular_uso_aristas self xv = Inr uso \<and>
     distinct (map fst uso) \<and>
     fst ` set uso = {(i, j) \<in> set (aristas self). \<exists>k<length (emergencias self). 1 / 2 < xv i j k} \<and>
     (\<forall>i j r. ((i, j), r) \<in> set uso \<longrightarrow>
        flujos_ids r = map Suc (filter (\<lambda>k. 1 / 2 < xv i j k) [0..<length (emergencias self)]) \<and>
        num_flujos r = length (flujos_ids r) \<and>
        carga_total r = (\<Sum>f\<leftarrow>flujos_ids r. velocidad_requerida (emergencias self ! (f - 1))) \<and>
        num_attr (grafo self) i j ''capacity'' = Inr (capacidad r) \<and>
        utilizacion r = (if 0 < capacidad r then carga_total r / capacidad r else 0))"
proof -
  from uso_bucle [OF assms, of "[]"] obtain uso where
    u: "calcular_uso_aristas self xv = Inr uso" "distinct (map fst uso)"
      "\<forall>p \<in> set uso. uso_valido self xv p"
      "fst ` set uso = {(i, j) \<in> set (aristas self). \<exists>k<length (emergencias self). 1 / 2 < xv i j k}"
    unfolding calcular_uso_aristas_def by auto
  from u(3) have "\<forall>i j r. ((i, j), r) \<in> set uso \<longrightarrow>
        flujos_ids r = map Suc (filter (\<lambda>k. 1 / 2 < xv i j k) [0..<length (emergencias self)]) \<and>
        num_flujos r = length (flujos_ids r) \<and>
        carga_total r = (\<Sum>f\<leftarrow>flujos_ids r. velocidad_requerida (emergencias self ! (f - 1))) \<and>
        num_attr (grafo self) i j ''capacity'' = Inr (capacidad r) \<and>
        utilizacion r = (if 0 < capacidad r then carga_total r / capacidad r else 0)"
    unfolding uso_valido_def by fastforce
  with u(1,2,4) show ?thesis by blast
qed

theorem calcular_uso_aristas_correcto_witness:
  "\<exists>uso. calcular_uso_aristas ejemplo_modelo ejemplo_valores = Inr uso \<and>
         distinct (map fst uso) \<and> fst ` set uso = {(1, 2), (2, 3)}"
proof -
  have h: "\<forall>(i, j) \<in> set (aristas ejemplo_modelo).
             (\<exists>k<length (emergencias ejemplo_modelo). 1 / 2 < ejemplo_valores i j k) \<longrightarrow>
             (\<exists>c. num_attr (grafo ejemplo_modelo) i j ''capacity'' = Inr c)"
    by (simp add: ejemplo_modelo_def ejemplo_grafo_def num_attr_def edge_attr_def dg_get_def)
  have s: "{(i, j) \<in> set (aristas ejemplo_modelo).
              \<exists>k<length (emergencias ejemplo_modelo). 1 / 2 < ejemplo_valores i j k}
             = {(1, 2), (2, 3)}"
    by (auto simp: ejemplo_modelo_def ejemplo_emergencias_def ejemplo_valores_def
        intro: exI [of _ 1])
  from calcular_uso_aristas_correcto [OF h] show ?thesis
    unfolding s by blast
qed

text \<open>On the instance: loads 80 and 40; the edge of capacity 0 gets utilization 0.\<close>

lemma calcular_uso_aristas_ejemplo:
  "calcular_uso_aristas ejemplo_modelo ejemplo_valores =
     Inr [((1, 2), \<lparr>num_flujos = 2, flujos_ids = [1, 2], carga_total = 80, capacidad = 90,
                     utilizacion = 8 / 9\<rparr>),
          ((2, 3), \<lparr>num_flujos = 1, flujos_ids = [2], carga_total = 40, capacidad = 0,
                     utilizacion = 0\<rparr>)]"
  by (simp add: calcular_uso_aristas_def ejemplo_modelo_def ejemplo_grafo_def
      ejemplo_emergencias_def ejemplo_valores_def uso_de_arista_def num_attr_def edge_attr_def
      dg_get_def truediv_def)

subsection \<open>Building the MILP\<close>

lemma foldE_inv:
  assumes "foldE f xs s = Inr s'" and "P s"
    and "\<And>x s s1. x \<in> set xs \<Longrightarrow> P s \<Longrightarrow> f x s = Inr s1 \<Longrightarrow> P s1"
  shows "P s'"
  using assms
proof (induction xs arbitrary: s)
  case Nil
  then show ?case by simp
next
  case (Cons x xs)
  from Cons.prems(1) obtain s1 where a: "f x s = Inr s1" and r: "foldE f xs s1 = Inr s'"
    by (auto split: sum.splits)
  have "P s1" using Cons.prems(3) [of x s s1] Cons.prems(2) a by simp
  show ?case
  proof (rule Cons.IH [OF r \<open>P s1\<close>])
    fix y t t1
    assume "y \<in> set xs" "P t" "f y t = Inr t1"
    then show "P t1" using Cons.prems(3) [of y t t1] by simp
  qed
qed

lemma agregar_restriccion_Inr:
  "agregar_restriccion m c = Inr m' \<longleftrightarrow>
     r_nombre c \<notin> r_nombre ` set (restricciones m) \<and> m' = m\<lparr>restricciones := restricciones m @ [c]\<rparr>"
  by (auto simp: agregar_restriccion_def)

lemma agregar_restriccion_distintos:
  "agregar_restriccion m c = Inr m' \<Longrightarrow> nombres_distintos m \<Longrightarrow> nombres_distintos m'"
  by (auto simp: agregar_restriccion_Inr nombres_distintos_def)

lemma agregar_bucle:
  assumes "foldE (\<lambda>x m'. agregar_restriccion m' (f x)) xs m = Inr m'"
  shows "m' = m\<lparr>restricciones := restricciones m @ map f xs\<rparr>"
  using assms
proof (induction xs arbitrary: m)
  case Nil
  then show ?case by simp
next
  case (Cons x xs)
  from Cons.prems obtain m1 where a: "agregar_restriccion m (f x) = Inr m1"
    and r: "foldE (\<lambda>x m'. agregar_restriccion m' (f x)) xs m1 = Inr m'"
    by (auto split: sum.splits)
  from a have m1: "m1 = m\<lparr>restricciones := restricciones m @ [f x]\<rparr>"
    by (simp add: agregar_restriccion_Inr)
  from Cons.IH [OF r] m1 show ?case by simp
qed

lemma flujo_de_emergencia_distintos:
  assumes "flujo_de_emergencia self p m = Inr m'" and "nombres_distintos m"
  shows "nombres_distintos m'"
proof -
  obtain k emerg where p: "p = (k, emerg)" by (cases p)
  from assms(1) have "foldE (\<lambda>nodo m'. agregar_restriccion m' (restriccion_flujo self k (nodo_destino emerg) nodo))
          (nodos self) m = Inr m'"
    unfolding p by (simp add: flujo_de_emergencia_def)
  from foldE_inv [OF this, of nombres_distintos] assms(2) show ?thesis
    using agregar_restriccion_distintos by blast
qed

lemma flujo_bucle:
  assumes "foldE (flujo_de_emergencia self) kes m = Inr m'"
  shows "m' = m\<lparr>restricciones := restricciones m @
            restricciones_flujo self kes\<rparr>"
  using assms
proof (induction kes arbitrary: m)
  case Nil
  then show ?case by (simp add: restricciones_flujo_def)
next
  case (Cons p kes)
  obtain k emerg where p: "p = (k, emerg)" by (cases p)
  from Cons.prems obtain m1 where a: "flujo_de_emergencia self (k, emerg) m = Inr m1"
    and r: "foldE (flujo_de_emergencia self) kes m1 = Inr m'"
    unfolding p by (auto split: sum.splits)
  from a have "foldE (\<lambda>nodo m'. agregar_restriccion m' (restriccion_flujo self k (nodo_destino emerg) nodo))
          (nodos self) m = Inr m1"
    by (simp add: flujo_de_emergencia_def)
  from agregar_bucle [OF this] Cons.IH [OF r] show ?case
    unfolding p by (simp add: restricciones_flujo_def)
qed

lemma restriccion_conservacion_flujo_distintos:
  assumes "restriccion_conservacion_flujo self m = Inr m'" and "nombres_distintos m"
  shows "nombres_distintos m'"
  using foldE_inv [OF assms(1) [unfolded restriccion_conservacion_flujo_def], of nombres_distintos]
    assms(2) flujo_de_emergencia_distintos by blast

lemma capacidad_de_arista_Inr:
  assumes "capacidad_de_arista self e m = Inr m'"
  shows "\<exists>c. es_restriccion_capacidad self e c \<and> agregar_restriccion m c = Inr m'"
proof -
  obtain i j where e: "e = (i, j)" by (cases e)
  from assms show ?thesis
    unfolding e by (auto simp: capacidad_de_arista_def es_restriccion_capacidad_def split: sum.splits)
qed

lemma capacidad_bucle:
  assumes "foldE (capacidad_de_arista self) ars m = Inr m'"
  shows "\<exists>cs. m' = m\<lparr>restricciones := restricciones m @ cs\<rparr> \<and> list_all2 (es_restriccion_capacidad self) ars cs"
  using assms
proof (induction ars arbitrary: m)
  case Nil
  then show ?case by simp
next
  case (Cons e ars)
  from Cons.prems obtain m1 where a: "capacidad_de_arista self e m = Inr m1"
    and r: "foldE (capacidad_de_arista self) ars m1 = Inr m'"
    by (auto split: sum.splits)
  from capacidad_de_arista_Inr [OF a] obtain c where c: "es_restriccion_capacidad self e c"
    and m1: "m1 = m\<lparr>restricciones := restricciones m @ [c]\<rparr>"
    by (auto simp: agregar_restriccion_Inr)
  from Cons.IH [OF r] obtain cs where cs: "m' = m1\<lparr>restricciones := restricciones m1 @ cs\<rparr>"
    "list_all2 (es_restriccion_capacidad self) ars cs"
    by blast
  with c m1 have "m' = m\<lparr>restricciones := restricciones m @ (c # cs)\<rparr> \<and>
      list_all2 (es_restriccion_capacidad self) (e # ars) (c # cs)"
    by simp
  then show ?case by blast
qed

lemma restriccion_capacidad_vias_distintos:
  assumes "restriccion_capacidad_vias self m = Inr m'" and "nombres_distintos m"
  shows "nombres_distintos m'"
proof -
  have "\<And>x s s1. nombres_distintos s \<Longrightarrow> capacidad_de_arista self x s = Inr s1 \<Longrightarrow> nombres_distintos s1"
    using capacidad_de_arista_Inr agregar_restriccion_distintos by blast
  from foldE_inv [OF assms(1) [unfolded restriccion_capacidad_vias_def], of nombres_distintos]
    assms(2) this show ?thesis by blast
qed

lemma getitem_conv: "getitem d k = (case map_of d k of None \<Rightarrow> Inl KeyError | Some v \<Rightarrow> Inr v)"
  by (simp add: getitem_def)

lemma map_of_None_iff: "map_of d k = None \<longleftrightarrow> k \<notin> fst ` set d"
  by (simp add: map_of_eq_None_iff)

lemma obtener_costo_especificado:
  "obtener_costo cu sev a b =
     (case costo_especificado cu sev a b of None \<Rightarrow> Inl KeyError | Some c \<Rightarrow> Inr c)"
proof (cases cu)
  case None
  then show ?thesis
    by (simp add: obtener_costo_def costo_especificado_def getitem_def split: option.splits)
next
  case (Some d)
  show ?thesis
  proof (cases "map_of d sev")
    case None
    then have "sev \<notin> fst ` set d" by (simp add: map_of_eq_None_iff)
    then show ?thesis using Some None
      by (simp add: obtener_costo_def costo_especificado_def getitem_def split: option.splits)
  next
    case (Some fila)
    then have "sev \<in> fst ` set d" "d \<noteq> []"
      using map_of_eq_None_iff [of d sev] by auto
    then show ?thesis using \<open>cu = Some d\<close> Some
      by (simp add: obtener_costo_def costo_especificado_def getitem_def split: option.splits)
  qed
qed

lemma costo_fijo_bucle:
  assumes "foldE (sumar_costo_fijo self) ems acc = Inr tot"
  shows "tot = acc + (\<Sum>e\<leftarrow>ems. costo_de self ''costo_fijo'' ''costo_fijo_activacion'' (severidad e)) \<and>
         (\<forall>e \<in> set ems. costo_especificado (costos_usuario self) (severidad e) ''costo_fijo'' ''costo_fijo_activacion''
              = Some (costo_de self ''costo_fijo'' ''costo_fijo_activacion'' (severidad e)))"
  using assms
proof (induction ems arbitrary: acc)
  case Nil
  then show ?case by simp
next
  case (Cons e ems)
  from Cons.prems obtain t1 where a: "sumar_costo_fijo self e acc = Inr t1"
    and r: "foldE (sumar_costo_fijo self) ems t1 = Inr tot"
    by (auto split: sum.splits)
  from a obtain c where c: "costo_especificado (costos_usuario self) (severidad e) ''costo_fijo'' ''costo_fijo_activacion'' = Some c"
    and t1: "t1 = acc + c"
    by (auto simp: sumar_costo_fijo_def obtener_costo_especificado split: option.splits sum.splits)
  from c have "costo_de self ''costo_fijo'' ''costo_fijo_activacion'' (severidad e) = c"
    by (simp add: costo_de_def)
  with Cons.IH [OF r] c t1 show ?case by simp
qed

lemma costo_arista_bucle:
  assumes "foldE (costo_arista self k ck) ars cv = Inr cv'"
  shows "cv' = cv @ map (\<lambda>(i, j). (longitud_de self i j / 1000 * ck, X i j k)) ars \<and>
         (\<forall>(i, j) \<in> set ars. num_attr (grafo self) i j ''length'' = Inr (longitud_de self i j))"
  using assms
proof (induction ars arbitrary: cv)
  case Nil
  then show ?case by simp
next
  case (Cons e ars)
  obtain i j where e: "e = (i, j)" by (cases e)
  from Cons.prems obtain cv1 where a: "costo_arista self k ck (i, j) cv = Inr cv1"
    and r: "foldE (costo_arista self k ck) ars cv1 = Inr cv'"
    unfolding e by (auto split: sum.splits)
  from a obtain l where l: "num_attr (grafo self) i j ''length'' = Inr l"
    and cv1: "cv1 = cv @ [(l / 1000 * ck, X i j k)]"
    by (auto simp: costo_arista_def split: sum.splits)
  from l have "longitud_de self i j = l" by (simp add: longitud_de_def)
  with Cons.IH [OF r] l cv1 show ?case unfolding e by simp
qed

lemma costo_flujo_bucle:
  assumes "foldE (costo_flujo self) kes cv = Inr cv'"
  shows "cv' = cv @ concat (map (\<lambda>(k, e). map (\<lambda>(i, j).
              (longitud_de self i j / 1000 * costo_de self ''costo_km'' ''costo_por_km'' (severidad e), X i j k))
              (aristas self)) kes) \<and>
         (\<forall>(k, e) \<in> set kes. costo_especificado (costos_usuario self) (severidad e) ''costo_km'' ''costo_por_km''
              = Some (costo_de self ''costo_km'' ''costo_por_km'' (severidad e))) \<and>
         (kes \<noteq> [] \<longrightarrow> (\<forall>(i, j) \<in> set (aristas self).
              num_attr (grafo self) i j ''length'' = Inr (longitud_de self i j)))"
  using assms
proof (induction kes arbitrary: cv)
  case Nil
  then show ?case by simp
next
  case (Cons p kes)
  obtain k e where p: "p = (k, e)" by (cases p)
  from Cons.prems obtain cv1 where a: "costo_flujo self (k, e) cv = Inr cv1"
    and r: "foldE (costo_flujo self) kes cv1 = Inr cv'"
    unfolding p by (auto split: sum.splits)
  from a obtain ck where ck: "costo_especificado (costos_usuario self) (severidad e) ''costo_km'' ''costo_por_km'' = Some ck"
    and f: "foldE (costo_arista self k ck) (aristas self) cv = Inr cv1"
    by (auto simp: costo_flujo_def obtener_costo_especificado split: option.splits sum.splits)
  from ck have ckd: "costo_de self ''costo_km'' ''costo_por_km'' (severidad e) = ck"
    by (simp add: costo_de_def)
  from costo_arista_bucle [OF f] Cons.IH [OF r] ck ckd show ?case
    unfolding p by simp
qed

lemma valor_terminos_append:
  "valor_terminos xv (a @ b) = valor_terminos xv a + valor_terminos xv b"
  by (simp add: valor_terminos_def)

lemma valor_terminos_concat:
  "valor_terminos xv (concat xss) = (\<Sum>xs\<leftarrow>xss. valor_terminos xv xs)"
  by (induction xss) (simp_all add: valor_terminos_append, simp add: valor_terminos_def)

lemma definir_funcion_objetivo_forma:
  assumes "definir_funcion_objetivo self m0 = Inr m1"
  shows "\<exists>cv cf. m1 = m0\<lparr>objetivo := Some (cv, cf)\<rparr> \<and>
     cf = (\<Sum>e\<leftarrow>emergencias self. costo_de self ''costo_fijo'' ''costo_fijo_activacion'' (severidad e)) \<and>
     cv = concat (map (\<lambda>(k, e). map (\<lambda>(i, j).
              (longitud_de self i j / 1000 * costo_de self ''costo_km'' ''costo_por_km'' (severidad e), X i j k))
              (aristas self)) (enumerate 0 (emergencias self))) \<and>
     (\<forall>e \<in> set (emergencias self).
        costo_especificado (costos_usuario self) (severidad e) ''costo_fijo'' ''costo_fijo_activacion''
          = Some (costo_de self ''costo_fijo'' ''costo_fijo_activacion'' (severidad e)) \<and>
        costo_especificado (costos_usuario self) (severidad e) ''costo_km'' ''costo_por_km''
          = Some (costo_de self ''costo_km'' ''costo_por_km'' (severidad e))) \<and>
     (emergencias self \<noteq> [] \<longrightarrow> (\<forall>(i, j) \<in> set (aristas self).
              num_attr (grafo self) i j ''length'' = Inr (longitud_de self i j)))"
proof -
  from assms obtain cf cv where
    f: "foldE (sumar_costo_fijo self) (emergencias self) 0 = Inr cf" and
    v: "foldE (costo_flujo self) (enumerate 0 (emergencias self)) [] = Inr cv" and
    m1: "m1 = m0\<lparr>objetivo := Some (cv, cf)\<rparr>"
    by (auto simp: definir_funcion_objetivo_def split: sum.splits)
  have km: "\<forall>e \<in> set (emergencias self).
        costo_especificado (costos_usuario self) (severidad e) ''costo_km'' ''costo_por_km''
          = Some (costo_de self ''costo_km'' ''costo_por_km'' (severidad e))"
  proof
    fix e assume "e \<in> set (emergencias self)"
    then obtain n where "n < length (emergencias self)" "emergencias self ! n = e"
      by (auto simp: in_set_conv_nth)
    then have "(n, e) \<in> set (enumerate 0 (emergencias self))"
      by (auto simp: in_set_enumerate_eq)
    with costo_flujo_bucle [OF v] show "costo_especificado (costos_usuario self) (severidad e) ''costo_km'' ''costo_por_km''
          = Some (costo_de self ''costo_km'' ''costo_por_km'' (severidad e))"
      by blast
  qed
  have en: "enumerate 0 (emergencias self) = [] \<longleftrightarrow> emergencias self = []"
    by (cases "emergencias self") simp_all
  from costo_fijo_bucle [OF f] costo_flujo_bucle [OF v] km m1 show ?thesis
    by (intro exI [of _ cv] exI [of _ cf]) (simp add: en)
qed

lemma construir_modelo_forma:
  assumes "construir_modelo self = Inr m"
  shows "\<exists>cv cf cs.
     m = \<lparr>variables = crear_variables self, objetivo = Some (cv, cf),
          restricciones = restricciones_flujo self (enumerate 0 (emergencias self)) @ cs\<rparr> \<and>
     definir_funcion_objetivo self
        \<lparr>variables = crear_variables self, objetivo = None, restricciones = []\<rparr>
       = Inr \<lparr>variables = crear_variables self, objetivo = Some (cv, cf), restricciones = []\<rparr> \<and>
     list_all2 (es_restriccion_capacidad self) (aristas self) cs \<and>
     nombres_distintos m"
proof -
  let ?m0 = "\<lparr>variables = crear_variables self, objetivo = None, restricciones = []\<rparr>"
  from assms obtain m1 m2 where
    o: "definir_funcion_objetivo self ?m0 = Inr m1" and
    f: "restriccion_conservacion_flujo self m1 = Inr m2" and
    c: "restriccion_capacidad_vias self m2 = Inr m"
    by (auto simp: construir_modelo_def split: sum.splits)
  from definir_funcion_objetivo_forma [OF o] obtain cv cf where
    m1: "m1 = \<lparr>variables = crear_variables self, objetivo = Some (cv, cf), restricciones = []\<rparr>"
    by auto
  have d1: "nombres_distintos m1" by (simp add: m1 nombres_distintos_def)
  from flujo_bucle [OF f [unfolded restriccion_conservacion_flujo_def]]
  have m2: "m2 = \<lparr>variables = crear_variables self, objetivo = Some (cv, cf),
                  restricciones = restricciones_flujo self (enumerate 0 (emergencias self))\<rparr>"
    by (simp add: m1)
  from capacidad_bucle [OF c [unfolded restriccion_capacidad_vias_def]] obtain cs where
    cs: "m = m2\<lparr>restricciones := restricciones m2 @ cs\<rparr>"
      "list_all2 (es_restriccion_capacidad self) (aristas self) cs"
    by blast
  have "nombres_distintos m"
    using restriccion_capacidad_vias_distintos [OF c]
      restriccion_conservacion_flujo_distintos [OF f d1] by simp
  with cs m2 o m1 show ?thesis by auto
qed

lemma filter_unico:
  assumes "distinct (map f xs)" and "x \<in> set xs"
  shows "filter (\<lambda>y. f y = f x) xs = [x]"
  using assms
proof (induction xs)
  case Nil
  then show ?case by simp
next
  case (Cons a xs)
  show ?case
  proof (cases "a = x")
    case True
    with Cons.prems(1) have "f x \<notin> f ` set xs" by simp
    then have "filter (\<lambda>y. f y = f x) xs = []"
      unfolding filter_empty_conv by (metis image_eqI)
    with True show ?thesis by simp
  next
    case False
    with Cons.prems have "x \<in> set xs" "f a \<noteq> f x" by auto
    with Cons.IH Cons.prems(1) show ?thesis by simp
  qed
qed

lemma valor_demanda:
  "valor_terminos xv (map (\<lambda>(k, emerg). (velocidad_requerida emerg, X i j k)) kes)
     = (\<Sum>(k, emerg)\<leftarrow>kes. velocidad_requerida emerg * xv i j k)"
  by (simp add: valor_terminos_def valor_var_def comp_def split_def)

lemma construir_modelo_ejemplo: "construir_modelo ejemplo_modelo = Inr ejemplo_lp"
  by (simp add: construir_modelo_def ejemplo_modelo_def ejemplo_lp_def ejemplo_grafo_def
      ejemplo_emergencias_def crear_variables_def definir_funcion_objetivo_def
      sumar_costo_fijo_def costo_flujo_def costo_arista_def obtener_costo_def getitem_def
      PRIORIDAD_A_AMBULANCIA_def COSTOS_def num_attr_def edge_attr_def dg_get_def
      restriccion_conservacion_flujo_def flujo_de_emergencia_def restriccion_flujo_def
      entrantes_def salientes_def resta_def agregar_restriccion_def
      restriccion_capacidad_vias_def capacidad_de_arista_def demanda_total_def)

text \<open>
  C1: in the MILP that \<^verbatim>\<open>construir_modelo\<close> builds, every edge \<open>(i, j)\<close> of
  \<^verbatim>\<open>self.aristas\<close> has exactly one constraint named for it, and that constraint
  states that the sum over the emergencies \<open>k\<close> of
  \<open>velocidad_requerida k * x[i, j, k]\<close> is at most the edge's capacity.
\<close>

theorem restriccion_capacidad_por_arista:
  assumes "construir_modelo self = Inr m" and "(i, j) \<in> set (aristas self)"
  shows "\<exists>cap. num_attr (grafo self) i j ''capacity'' = Inr cap \<and>
     filter (\<lambda>c. r_nombre c = Capacidad i j) (restricciones m) =
       [\<lparr>r_nombre = Capacidad i j,
         r_terminos = map (\<lambda>(k, emerg). (velocidad_requerida emerg, X i j k))
                        (enumerate 0 (emergencias self)),
         r_sentido = LE, r_rhs = cap\<rparr>] \<and>
     (\<forall>xv. satisface xv
              \<lparr>r_nombre = Capacidad i j,
               r_terminos = map (\<lambda>(k, emerg). (velocidad_requerida emerg, X i j k))
                              (enumerate 0 (emergencias self)),
               r_sentido = LE, r_rhs = cap\<rparr>
           \<longleftrightarrow> (\<Sum>(k, emerg)\<leftarrow>enumerate 0 (emergencias self).
                  velocidad_requerida emerg * xv i j k) \<le> cap)"
proof -
  from construir_modelo_forma [OF assms(1)] obtain cv cf cs where
    m: "restricciones m = restricciones_flujo self (enumerate 0 (emergencias self)) @ cs"
    and cs: "list_all2 (es_restriccion_capacidad self) (aristas self) cs"
    and d: "nombres_distintos m"
    by auto
  from assms(2) obtain n where n: "n < length (aristas self)" "aristas self ! n = (i, j)"
    by (auto simp: in_set_conv_nth)
  with cs have r: "es_restriccion_capacidad self (i, j) (cs ! n)" and nl: "n < length cs"
    by (auto simp: list_all2_conv_all_nth)
  then obtain cap where cap: "num_attr (grafo self) i j ''capacity'' = Inr cap"
    and c: "cs ! n = \<lparr>r_nombre = Capacidad i j, r_terminos = demanda_total self i j,
                      r_sentido = LE, r_rhs = cap\<rparr>"
    by (auto simp: es_restriccion_capacidad_def)
  let ?c = "\<lparr>r_nombre = Capacidad i j, r_terminos = demanda_total self i j,
                      r_sentido = LE, r_rhs = cap\<rparr>"
  have "?c \<in> set (restricciones m)"
    using nl c m by (metis Un_iff nth_mem set_append)
  from filter_unico [OF d [unfolded nombres_distintos_def] this]
  have "filter (\<lambda>c. r_nombre c = Capacidad i j) (restricciones m) = [?c]"
    by simp
  moreover have "\<forall>xv. satisface xv ?c \<longleftrightarrow>
      (\<Sum>(k, emerg)\<leftarrow>enumerate 0 (emergencias self). velocidad_requerida emerg * xv i j k) \<le> cap"
    by (simp add: satisface_def demanda_total_def valor_demanda)
  ultimately show ?thesis using cap by (simp add: demanda_total_def)
qed

theorem restriccion_capacidad_por_arista_witness:
  "\<exists>cap. num_attr (grafo ejemplo_modelo) 1 2 ''capacity'' = Inr cap \<and>
     filter (\<lambda>c. r_nombre c = Capacidad 1 2) (restricciones ejemplo_lp) =
       [\<lparr>r_nombre = Capacidad 1 2,
         r_terminos = map (\<lambda>(k, emerg). (velocidad_requerida emerg, X 1 2 k))
                        (enumerate 0 (emergencias ejemplo_modelo)),
         r_sentido = LE, r_rhs = cap\<rparr>] \<and>
     (\<forall>xv. satisface xv
              \<lparr>r_nombre = Capacidad 1 2,
               r_terminos = map (\<lambda>(k, emerg). (velocidad_requerida emerg, X 1 2 k))
                              (enumerate 0 (emergencias ejemplo_modelo)),
               r_sentido = LE, r_rhs = cap\<rparr>
           \<longleftrightarrow> (\<Sum>(k, emerg)\<leftarrow>enumerate 0 (emergencias ejemplo_modelo).
                  velocidad_requerida emerg * xv 1 2 k) \<le> cap)"
proof -
  have "(1, 2) \<in> set (aristas ejemplo_modelo)" by (simp add: ejemplo_modelo_def)
  from restriccion_capacidad_por_arista [OF construir_modelo_ejemplo this] show ?thesis .
qed

lemma valor_resta:
  "valor_terminos xv (resta a b) = (\<Sum>v\<leftarrow>a. valor_var xv v) - (\<Sum>v\<leftarrow>b. valor_var xv v)"
proof -
  have "(\<Sum>x\<leftarrow>b. - valor_var xv x) = - (\<Sum>x\<leftarrow>b. valor_var xv x)"
    by (induction b) simp_all
  then show ?thesis
    by (simp add: valor_terminos_def resta_def comp_def)
qed

lemma valor_entrantes:
  "(\<Sum>v\<leftarrow>entrantes self k nodo. valor_var xv v)
     = (\<Sum>(i, j)\<leftarrow>filter (\<lambda>(i, j). j = nodo) (aristas self). xv i nodo k)"
  by (simp add: entrantes_def valor_var_def comp_def split_def)

lemma valor_salientes:
  "(\<Sum>v\<leftarrow>salientes self k nodo. valor_var xv v)
     = (\<Sum>(i, j)\<leftarrow>filter (\<lambda>(i, j). i = nodo) (aristas self). xv nodo j k)"
  by (simp add: salientes_def valor_var_def comp_def split_def)

lemma restriccion_flujo_en_modelo:
  assumes "construir_modelo self = Inr m" and "k < length (emergencias self)" and "v \<in> set (nodos self)"
  shows "restriccion_flujo self k (nodo_destino (emergencias self ! k)) v \<in> set (restricciones m)"
proof -
  from construir_modelo_forma [OF assms(1)] obtain cs where
    m: "restricciones m = restricciones_flujo self (enumerate 0 (emergencias self)) @ cs"
    by auto
  from assms(2) have "(k, emergencias self ! k) \<in> set (enumerate 0 (emergencias self))"
    by (simp add: in_set_enumerate_eq)
  with assms(3) show ?thesis
    unfolding m restricciones_flujo_def by fastforce
qed

text \<open>
  C2 (as stated): for every emergency \<open>k\<close> and node \<open>v\<close> the MILP has the equality
  "incoming minus outgoing = 1" when \<open>v\<close> is the destination of \<open>k\<close>. When that
  destination is the origin node, the \<^verbatim>\<open>if\<close> branch of the origin wins and the
  \<^verbatim>\<open>elif\<close> of the destination is never reached: the MILP built for an emergency
  bound to the origin (node 1) has the origin's equality for node 1 and no destination
  equality at all.
\<close>

theorem restriccion_conservacion_destino_en_origen_counterexample:
  "construir_modelo ejemplo_destino_en_origen =
     Inr \<lparr>variables = [X 1 2 0, X 2 3 0],
          objetivo = Some ([(63204 / 5, X 1 2 0), (5267, X 2 3 0)], 60000),
          restricciones =
            [\<lparr>r_nombre = Flujo_Origen 0 1, r_terminos = [(1, X 1 2 0)], r_sentido = EQ, r_rhs = 1\<rparr>,
             \<lparr>r_nombre = Flujo_Conservacion 0 2, r_terminos = [(1, X 1 2 0), (- 1, X 2 3 0)],
              r_sentido = EQ, r_rhs = 0\<rparr>,
             \<lparr>r_nombre = Flujo_Conservacion 0 3, r_terminos = [(1, X 2 3 0)],
              r_sentido = EQ, r_rhs = 0\<rparr>,
             \<lparr>r_nombre = Capacidad 1 2, r_terminos = [(40, X 1 2 0)], r_sentido = LE, r_rhs = 90\<rparr>,
             \<lparr>r_nombre = Capacidad 2 3, r_terminos = [(40, X 2 3 0)], r_sentido = LE, r_rhs = 0\<rparr>]\<rparr>
   \<and> nodo_destino (emergencias ejemplo_destino_en_origen ! 0) = nodo_origen ejemplo_destino_en_origen"
  by (simp add: construir_modelo_def ejemplo_destino_en_origen_def ejemplo_grafo_def
      crear_variables_def definir_funcion_objetivo_def
      sumar_costo_fijo_def costo_flujo_def costo_arista_def obtener_costo_def getitem_def
      PRIORIDAD_A_AMBULANCIA_def COSTOS_def num_attr_def edge_attr_def dg_get_def
      restriccion_conservacion_flujo_def flujo_de_emergencia_def restriccion_flujo_def
      entrantes_def salientes_def resta_def agregar_restriccion_def
      restriccion_capacidad_vias_def capacidad_de_arista_def demanda_total_def)

text \<open>
  C2 (amended): for every emergency \<open>k\<close> and every node \<open>v\<close> of \<^verbatim>\<open>self.nodos\<close>
  the MILP contains the flow-conservation equality of \<open>k\<close> and \<open>v\<close>: outgoing minus
  incoming = 1 when \<open>v\<close> is the origin (also when the origin is the destination of
  \<open>k\<close>), incoming minus outgoing = 1 when \<open>v\<close> is the destination of \<open>k\<close> and not
  the origin, and incoming minus outgoing = 0 for every other node.
\<close>

theorem restriccion_conservacion_por_nodo:
  assumes "construir_modelo self = Inr m" and "k < length (emergencias self)"
    and "v \<in> set (nodos self)"
  shows "\<exists>c \<in> set (restricciones m).
     c = restriccion_flujo self k (nodo_destino (emergencias self ! k)) v \<and>
     (\<forall>xv. satisface xv c \<longleftrightarrow>
        (if v = nodo_origen self then
           (\<Sum>(i, j)\<leftarrow>filter (\<lambda>(i, j). i = v) (aristas self). xv v j k)
             - (\<Sum>(i, j)\<leftarrow>filter (\<lambda>(i, j). j = v) (aristas self). xv i v k) = 1
         else if v = nodo_destino (emergencias self ! k) then
           (\<Sum>(i, j)\<leftarrow>filter (\<lambda>(i, j). j = v) (aristas self). xv i v k)
             - (\<Sum>(i, j)\<leftarrow>filter (\<lambda>(i, j). i = v) (aristas self). xv v j k) = 1
         else
           (\<Sum>(i, j)\<leftarrow>filter (\<lambda>(i, j). j = v) (aristas self). xv i v k)
             - (\<Sum>(i, j)\<leftarrow>filter (\<lambda>(i, j). i = v) (aristas self). xv v j k) = 0))"
proof -
  have "\<forall>xv. satisface xv (restriccion_flujo self k (nodo_destino (emergencias self ! k)) v) \<longleftrightarrow>
        (if v = nodo_origen self then
           (\<Sum>(i, j)\<leftarrow>filter (\<lambda>(i, j). i = v) (aristas self). xv v j k)
             - (\<Sum>(i, j)\<leftarrow>filter (\<lambda>(i, j). j = v) (aristas self). xv i v k) = 1
         else if v = nodo_destino (emergencias self ! k) then
           (\<Sum>(i, j)\<leftarrow>filter (\<lambda>(i, j). j = v) (aristas self). xv i v k)
             - (\<Sum>(i, j)\<leftarrow>filter (\<lambda>(i, j). i = v) (aristas self). xv v j k) = 1
         else
           (\<Sum>(i, j)\<leftarrow>filter (\<lambda>(i, j). j = v) (aristas self). xv i v k)
             - (\<Sum>(i, j)\<leftarrow>filter (\<lambda>(i, j). i = v) (aristas self). xv v j k) = 0)"
    by (simp add: satisface_def restriccion_flujo_def valor_resta valor_entrantes valor_salientes)
  with restriccion_flujo_en_modelo [OF assms] show ?thesis by blast
qed

theorem restriccion_conservacion_por_nodo_witness:
  "\<exists>c \<in> set (restricciones ejemplo_lp).
     c = \<lparr>r_nombre = Flujo_Destino 0 2, r_terminos = [(1, X 1 2 0), (- 1, X 2 3 0)],
          r_sentido = EQ, r_rhs = 1\<rparr> \<and>
     (\<forall>xv. satisface xv c \<longleftrightarrow> xv 1 2 0 - xv 2 3 0 = 1)"
proof -
  have k: "0 < length (emergencias ejemplo_modelo)"
    by (simp add: ejemplo_modelo_def ejemplo_emergencias_def)
  have v: "2 \<in> set (nodos ejemplo_modelo)" by (simp add: ejemplo_modelo_def)
  from restriccion_conservacion_por_nodo [OF construir_modelo_ejemplo k v] show ?thesis
    by (simp add: ejemplo_modelo_def ejemplo_emergencias_def restriccion_flujo_def
        entrantes_def salientes_def resta_def)
qed

lemma valor_costos:
  "valor_terminos xv (concat (map (\<lambda>(k, e). map (\<lambda>(i, j). (c i j e, X i j k)) ars) kes))
     = (\<Sum>(k, e)\<leftarrow>kes. \<Sum>(i, j)\<leftarrow>ars. c i j e * xv i j k)"
proof -
  have "\<And>k e. valor_terminos xv (map (\<lambda>(i, j). (c i j e, X i j k)) ars)
      = (\<Sum>(i, j)\<leftarrow>ars. c i j e * xv i j k)"
    by (simp add: valor_terminos_def valor_var_def comp_def split_def)
  then show ?thesis
    by (simp add: valor_terminos_concat comp_def split_def)
qed

text \<open>
  C3: the objective of the built MILP is the constant \<open>\<Sum>\<^sub>k fijo(severity\<^sub>k)\<close> plus the
  terms \<open>(length(i, j) / 1000) * km(severity\<^sub>k) * x[i, j, k]\<close> over the emergencies
  \<open>k\<close> and the edges \<open>(i, j)\<close>, where \<open>fijo\<close> and \<open>km\<close> are the costs of
  \<^const>\<open>costo_especificado\<close>: the user's row for the severity when there is one, else
  the default table.
\<close>

theorem objetivo_costo_total:
  assumes "construir_modelo self = Inr m"
  shows "\<exists>cv cf fijo km len.
     objetivo m = Some (cv, cf) \<and>
     (\<forall>e \<in> set (emergencias self).
        costo_especificado (costos_usuario self) (severidad e) ''costo_fijo'' ''costo_fijo_activacion''
          = Some (fijo (severidad e)) \<and>
        costo_especificado (costos_usuario self) (severidad e) ''costo_km'' ''costo_por_km''
          = Some (km (severidad e))) \<and>
     (emergencias self \<noteq> [] \<longrightarrow>
        (\<forall>(i, j) \<in> set (aristas self). num_attr (grafo self) i j ''length'' = Inr (len i j))) \<and>
     (\<forall>xv. cf + valor_terminos xv cv =
        (\<Sum>e\<leftarrow>emergencias self. fijo (severidad e)) +
        (\<Sum>(k, e)\<leftarrow>enumerate 0 (emergencias self).
           \<Sum>(i, j)\<leftarrow>aristas self. len i j / 1000 * km (severidad e) * xv i j k))"
proof -
  from construir_modelo_forma [OF assms] obtain cv cf where
    m: "objetivo m = Some (cv, cf)" and
    o: "definir_funcion_objetivo self
        \<lparr>variables = crear_variables self, objetivo = None, restricciones = []\<rparr>
       = Inr \<lparr>variables = crear_variables self, objetivo = Some (cv, cf), restricciones = []\<rparr>"
    by auto
  let ?fijo = "costo_de self ''costo_fijo'' ''costo_fijo_activacion''"
  let ?km = "costo_de self ''costo_km'' ''costo_por_km''"
  let ?len = "longitud_de self"
  from definir_funcion_objetivo_forma [OF o] have
    cf: "cf = (\<Sum>e\<leftarrow>emergencias self. ?fijo (severidad e))" and
    cv: "cv = concat (map (\<lambda>(k, e). map (\<lambda>(i, j).
              (?len i j / 1000 * ?km (severidad e), X i j k))
              (aristas self)) (enumerate 0 (emergencias self)))" and
    c: "\<forall>e \<in> set (emergencias self).
        costo_especificado (costos_usuario self) (severidad e) ''costo_fijo'' ''costo_fijo_activacion''
          = Some (?fijo (severidad e)) \<and>
        costo_especificado (costos_usuario self) (severidad e) ''costo_km'' ''costo_por_km''
          = Some (?km (severidad e))" and
    l: "emergencias self \<noteq> [] \<longrightarrow> (\<forall>(i, j) \<in> set (aristas self).
              num_attr (grafo self) i j ''length'' = Inr (?len i j))"
    by auto
  have "\<forall>xv. cf + valor_terminos xv cv =
        (\<Sum>e\<leftarrow>emergencias self. ?fijo (severidad e)) +
        (\<Sum>(k, e)\<leftarrow>enumerate 0 (emergencias self).
           \<Sum>(i, j)\<leftarrow>aristas self. ?len i j / 1000 * ?km (severidad e) * xv i j k)"
    unfolding cf cv
    using valor_costos [where c = "\<lambda>i j e. ?len i j / 1000 * ?km (severidad e)"
        and ars = "aristas self" and kes = "enumerate 0 (emergencias self)"]
    by simp
  with m c l show ?thesis by blast
qed

theorem objetivo_costo_total_witness:
  "\<exists>cv cf. objetivo ejemplo_lp = Some (cv, cf) \<and>
     (\<forall>xv. cf + valor_terminos xv cv =
        (35000 + 85000) +
        ((1200 / 1000 * 5585 * xv 1 2 0 + 500 / 1000 * 5585 * xv 2 3 0) +
         (1200 / 1000 * 20396 * xv 1 2 1 + 500 / 1000 * 20396 * xv 2 3 1)))"
proof -
  from objetivo_costo_total [OF construir_modelo_ejemplo] obtain cv cf fijo km len where
    o: "objetivo ejemplo_lp = Some (cv, cf)" and
    c: "\<forall>e \<in> set (emergencias ejemplo_modelo).
        costo_especificado (costos_usuario ejemplo_modelo) (severidad e) ''costo_fijo'' ''costo_fijo_activacion''
          = Some (fijo (severidad e)) \<and>
        costo_especificado (costos_usuario ejemplo_modelo) (severidad e) ''costo_km'' ''costo_por_km''
          = Some (km (severidad e))" and
    l: "emergencias ejemplo_modelo \<noteq> [] \<longrightarrow>
        (\<forall>(i, j) \<in> set (aristas ejemplo_modelo). num_attr (grafo ejemplo_modelo) i j ''length'' = Inr (len i j))" and
    v: "\<forall>xv. cf + valor_terminos xv cv =
        (\<Sum>e\<leftarrow>emergencias ejemplo_modelo. fijo (severidad e)) +
        (\<Sum>(k, e)\<leftarrow>enumerate 0 (emergencias ejemplo_modelo).
           \<Sum>(i, j)\<leftarrow>aristas ejemplo_modelo. len i j / 1000 * km (severidad e) * xv i j k)"
    by blast
  from c have f: "fijo ''leve'' = 35000" "fijo ''grave'' = 85000" "km ''leve'' = 5585" "km ''grave'' = 20396"
    by (simp_all add: ejemplo_modelo_def ejemplo_emergencias_def costo_especificado_def
        PRIORIDAD_A_AMBULANCIA_def COSTOS_def)
  from l have g: "len 1 2 = 1200" "len 2 3 = 500"
    by (simp_all add: ejemplo_modelo_def ejemplo_emergencias_def ejemplo_grafo_def
        num_attr_def edge_attr_def dg_get_def)
  from v have "\<forall>xv. cf + valor_terminos xv cv =
        (35000 + 85000) +
        ((1200 / 1000 * 5585 * xv 1 2 0 + 500 / 1000 * 5585 * xv 2 3 0) +
         (1200 / 1000 * 20396 * xv 1 2 1 + 500 / 1000 * 20396 * xv 2 3 1))"
    by (simp add: ejemplo_modelo_def ejemplo_emergencias_def f g)
  with o show ?thesis by blast
qed

subsection \<open>Binding emergencies to nodes\<close>

lemma pool_paso:
  assumes "j < m" "m \<le> length pool" "distinct (take m pool)"
  shows "distinct (take (m - 1) (pool[j := pool ! (m - 1)]))"
    and "set (take (m - 1) (pool[j := pool ! (m - 1)])) \<subseteq> set (take m pool) - {pool ! j}"
    and "pool ! j \<in> set (take m pool)"
proof -
  let ?xs = "take (m - 1) (pool[j := pool ! (m - 1)])"
  let ?f = "\<lambda>t. if t = j then m - 1 else t"
  have len: "length ?xs = m - 1" using assms by simp
  have nth: "\<And>t. t < m - 1 \<Longrightarrow> ?xs ! t = pool ! ?f t"
    using assms by (simp add: nth_list_update)
  have inj: "\<And>a b. a < m \<Longrightarrow> b < m \<Longrightarrow> a \<noteq> b \<Longrightarrow> pool ! a \<noteq> pool ! b"
    using assms(2,3) by (simp add: distinct_conv_nth)
  show "distinct ?xs"
    unfolding distinct_conv_nth len
  proof (intro allI impI)
    fix a b assume "a < m - 1" "b < m - 1" "a \<noteq> b"
    then have "?f a < m" "?f b < m" "?f a \<noteq> ?f b" by auto
    then have "pool ! ?f a \<noteq> pool ! ?f b" by (rule inj)
    then show "?xs ! a \<noteq> ?xs ! b"
      using nth [OF \<open>a < m - 1\<close>] nth [OF \<open>b < m - 1\<close>] by simp
  qed
  show "pool ! j \<in> set (take m pool)"
    using assms by (auto simp: in_set_conv_nth intro!: exI [of _ j])
  show "set ?xs \<subseteq> set (take m pool) - {pool ! j}"
  proof
    fix x assume "x \<in> set ?xs"
    then obtain t where t: "t < m - 1" "?xs ! t = x"
      unfolding in_set_conv_nth len by blast
    then have x: "x = pool ! ?f t" using nth by simp
    from t have ft: "?f t < m" "?f t \<noteq> j" by auto
    then have "pool ! ?f t \<noteq> pool ! j" using inj assms(1) by blast
    moreover have "pool ! ?f t \<in> set (take m pool)"
      using ft(1) assms(2) by (auto simp: in_set_conv_nth intro!: exI [of _ "?f t"])
    ultimately show "x \<in> set (take m pool) - {pool ! j}" unfolding x by blast
  qed
qed

lemma sample_pool_distinct:
  assumes "k \<le> m" "m \<le> length pool" "distinct (take m pool)"
  shows "distinct (sample_pool pool m k rs) \<and> set (sample_pool pool m k rs) \<subseteq> set (take m pool) \<and>
         length (sample_pool pool m k rs) = k"
  using assms
proof (induction k arbitrary: pool m rs)
  case 0
  then show ?case by simp
next
  case (Suc k)
  let ?j = "rs 0 mod m"
  let ?pool = "pool[?j := pool ! (m - 1)]"
  from Suc.prems(1) have m: "0 < m" by simp
  then have j: "?j < m" by simp
  note p = pool_paso [OF j Suc.prems(2,3)]
  have "k \<le> m - 1" "m - 1 \<le> length ?pool" using Suc.prems by simp_all
  from Suc.IH [OF this p(1), of "resto rs"]
  have ih: "distinct (sample_pool ?pool (m - 1) k (resto rs))"
    "set (sample_pool ?pool (m - 1) k (resto rs)) \<subseteq> set (take (m - 1) ?pool)"
    "length (sample_pool ?pool (m - 1) k (resto rs)) = k"
    by simp_all
  from ih(2) p(2) have "pool ! ?j \<notin> set (sample_pool ?pool (m - 1) k (resto rs))"
    "set (sample_pool ?pool (m - 1) k (resto rs)) \<subseteq> set (take m pool)"
    by blast+
  with ih(1,3) p(3) show ?case by (simp add: Let_def)
qed

text \<open>The exponent in \<^verbatim>\<open>setsize\<close> is the ceiling of the logarithm to base 4.\<close>

lemma techo_log4_desde_minimo:
  assumes "\<forall>e'<e. \<not> m \<le> 4 ^ e'"
  shows "m \<le> 4 ^ techo_log4_desde m e \<and> (\<forall>e'<techo_log4_desde m e. \<not> m \<le> 4 ^ e')"
  using assms
proof (induction m e rule: techo_log4_desde.induct)
  case (1 m e)
  show ?case
  proof (cases "m \<le> 4 ^ e")
    case True
    then have "techo_log4_desde m e = e" by (simp add: techo_log4_desde.simps)
    with True 1(2) show ?thesis by simp
  next
    case False
    then have eq: "techo_log4_desde m e = techo_log4_desde m (Suc e)"
      by (subst techo_log4_desde.simps) simp
    have "\<forall>e'<Suc e. \<not> m \<le> 4 ^ e'" using 1(2) False by (auto simp: less_Suc_eq)
    from 1(1) [OF False this] show ?thesis unfolding eq .
  qed
qed

lemma techo_log4_es_techo:
  assumes "0 < m"
  shows "int (techo_log4_desde m 0) = \<lceil>log 4 (real m)\<rceil>"
proof -
  let ?e = "techo_log4_desde m 0"
  from techo_log4_desde_minimo [of 0 m] have le: "m \<le> 4 ^ ?e" and mn: "\<forall>e'<?e. \<not> m \<le> 4 ^ e'"
    by simp_all
  have up: "log 4 (real m) \<le> real ?e"
  proof -
    from le have "real m \<le> 4 ^ ?e" by (metis of_nat_le_iff of_nat_numeral of_nat_power)
    then have "real m \<le> 4 powr real ?e" by (simp add: powr_realpow)
    with assms show ?thesis by (simp add: log_le_iff)
  qed
  have lo: "real ?e - 1 < log 4 (real m)"
  proof (cases "?e")
    case 0
    from assms have "1 \<le> real m" by simp
    then have "0 \<le> log 4 (real m)" by simp
    with 0 show ?thesis by simp
  next
    case (Suc d)
    with mn have "\<not> m \<le> 4 ^ d" by simp
    then have "4 ^ d < m" by simp
    then have "(4::real) ^ d < real m" by (metis of_nat_less_iff of_nat_numeral of_nat_power)
    then have "4 powr real d < real m" by (simp add: powr_realpow)
    then have "real d < log 4 (real m)" using assms by (simp add: less_log_iff)
    with Suc show ?thesis by simp
  qed
  from up lo have "\<lceil>log 4 (real m)\<rceil> = int ?e"
    by (intro ceiling_unique) simp_all
  then show ?thesis by simp
qed

lemma setsize_valores: "setsize 2 = 21" "setsize 6 = 85" "setsize 22 = 277"
  by code_simp+

lemma sorteo_nuevo_Some:
  assumes "sorteo_nuevo n sel rs = Some y"
  shows "\<exists>q. rs q mod n \<notin> sel"
proof (rule sorteo_nuevo.raw_induct
    [where P = "\<lambda>n sel rs y. \<exists>q. rs q mod n \<notin> sel" and n = n and selected = sel and rs = rs and y = y])
  show "sorteo_nuevo n sel rs = Some y" by fact
next
  fix f :: "nat \<Rightarrow> nat set \<Rightarrow> nat draws \<Rightarrow> (nat \<times> nat draws) option"
  fix n sel rs y
  assume ih: "\<And>n sel rs y. f n sel rs = Some y \<Longrightarrow> \<exists>q. rs q mod n \<notin> sel"
    and b: "(let j = rs 0 mod n
      in if j \<in> sel then f n sel (resto rs) else Some (j, resto rs)) = Some y"
  show "\<exists>q. rs q mod n \<notin> sel"
  proof (cases "rs 0 mod n \<in> sel")
    case True
    with b have "f n sel (resto rs) = Some y" by simp
    from ih [OF this] obtain q where "resto rs q mod n \<notin> sel" by blast
    then have "rs (Suc q) mod n \<notin> sel" by (simp add: resto_def)
    then show ?thesis by blast
  next
    case False
    then show ?thesis by blast
  qed
qed

lemma sorteo_nuevo_termina:
  assumes "rs q mod n \<notin> sel"
  shows "\<exists>p. sorteo_nuevo n sel rs = Some (rs p mod n, (\<lambda>i. rs (i + Suc p))) \<and> rs p mod n \<notin> sel"
  using assms
proof (induction q arbitrary: rs)
  case 0
  then have "sorteo_nuevo n sel rs = Some (rs 0 mod n, (\<lambda>i. rs (i + Suc 0)))"
    by (subst sorteo_nuevo.simps) (simp add: resto_def)
  with 0 show ?case by blast
next
  case (Suc q)
  show ?case
  proof (cases "rs 0 mod n \<in> sel")
    case False
    then have "sorteo_nuevo n sel rs = Some (rs 0 mod n, (\<lambda>i. rs (i + Suc 0)))"
      by (subst sorteo_nuevo.simps) (simp add: resto_def)
    with False show ?thesis by blast
  next
    case True
    from Suc.prems have "resto rs q mod n \<notin> sel" by (simp add: resto_def)
    with Suc.IH [of "resto rs"] obtain p where
      p: "sorteo_nuevo n sel (resto rs) = Some (resto rs p mod n, (\<lambda>i. resto rs (i + Suc p)))"
        "resto rs p mod n \<notin> sel"
      by blast
    have "sorteo_nuevo n sel rs = sorteo_nuevo n sel (resto rs)"
      using True by (subst sorteo_nuevo.simps) simp
    with p have "sorteo_nuevo n sel rs = Some (rs (Suc p) mod n, (\<lambda>i. rs (i + Suc (Suc p))))"
      "rs (Suc p) mod n \<notin> sel"
      by (simp_all add: resto_def)
    then show ?thesis by blast
  qed
qed

lemma recurrente_sufijo: "recurrente n rs \<Longrightarrow> recurrente n (\<lambda>i. rs (i + p))"
  unfolding recurrente_def
proof (intro allI impI)
  fix p' j
  assume a: "\<forall>p. \<forall>j<n. \<exists>q. rs (p + q) mod n = j" and j: "j < n"
  from a j obtain q where "rs ((p' + p) + q) mod n = j" by blast
  then have "rs (p' + q + p) mod n = j" by (simp add: add.commute add.left_commute)
  then show "\<exists>q. rs (p' + q + p) mod n = j" by blast
qed

lemma recurrente_fuera:
  assumes "recurrente n rs" and "sel \<subseteq> {..<n}" and "card sel < n"
  shows "\<exists>q. rs q mod n \<notin> sel"
proof -
  have "\<exists>j<n. j \<notin> sel"
  proof (rule ccontr)
    assume "\<not> (\<exists>j<n. j \<notin> sel)"
    then have "{..<n} \<subseteq> sel" by auto
    with assms(2) have "sel = {..<n}" by auto
    with assms(3) show False by simp
  qed
  then obtain j where j: "j < n" "j \<notin> sel" by blast
  from assms(1) j(1) obtain q where "rs (0 + q) mod n = j"
    unfolding recurrente_def by blast
  with j(2) show ?thesis by auto
qed

text \<open>The sequence 0, 1, 2, \<dots> is one that keeps producing every position.\<close>

lemma recurrente_identidad:
  assumes "0 < n"
  shows "recurrente n (\<lambda>i. i)"
  unfolding recurrente_def
proof (intro allI impI)
  fix p j assume j: "j < n"
  let ?q = "(n - p mod n) + j"
  have b: "p mod n < n" using assms by simp
  have "p = n * (p div n) + p mod n" by simp
  then have "p + ?q = n * (p div n) + p mod n + ((n - p mod n) + j)" by simp
  also have "\<dots> = j + n * (p div n) + n" using b by arith
  also have "\<dots> = j + n * (p div n + 1)" by (simp add: distrib_left)
  finally have e: "p + ?q = j + n * (p div n + 1)" .
  have "(j + n * (p div n + 1)) mod n = j" using j by (simp only: mod_mult_self2 mod_less)
  with e have "(p + ?q) mod n = j" by (simp only:)
  then show "\<exists>q. (p + q) mod n = j" by blast
qed

lemma sample_set_distinct:
  assumes "recurrente n rs" and "sel \<subseteq> {..<n}" and "card sel + k \<le> n"
    and "n = length population" and "distinct population"
  shows "\<exists>res. sample_set population n k sel rs = Some res \<and> length res = k \<and> distinct res \<and>
           set res \<subseteq> {population ! j |j. j < n \<and> j \<notin> sel}"
  using assms(1,2,3)
proof (induction k arbitrary: sel rs)
  case 0
  then show ?case by simp
next
  case (Suc k)
  from Suc.prems(3) have c: "card sel < n" by simp
  then have n: "0 < n" by simp
  from recurrente_fuera [OF Suc.prems(1,2) c] obtain q where "rs q mod n \<notin> sel" by blast
  with sorteo_nuevo_termina [of rs q n sel] obtain p where
    s: "sorteo_nuevo n sel rs = Some (rs p mod n, (\<lambda>i. rs (i + Suc p)))" and f: "rs p mod n \<notin> sel"
    by blast
  let ?j = "rs p mod n"
  let ?rs = "\<lambda>i. rs (i + Suc p)"
  have j: "?j < n" using n by simp
  have fin: "finite sel" using Suc.prems(2) by (rule finite_subset) simp
  have r: "recurrente n ?rs" using Suc.prems(1) by (rule recurrente_sufijo)
  have sub: "insert ?j sel \<subseteq> {..<n}" using Suc.prems(2) j by simp
  have cd: "card (insert ?j sel) + k \<le> n" using Suc.prems(3) f fin by simp
  from Suc.IH [OF r sub cd] obtain res where
    res: "sample_set population n k (insert ?j sel) ?rs = Some res" "length res = k" "distinct res"
      "set res \<subseteq> {population ! i |i. i < n \<and> i \<notin> insert ?j sel}"
    by blast
  have nin: "population ! ?j \<notin> set res"
  proof
    assume "population ! ?j \<in> set res"
    with res(4) obtain i where i: "i < n" "i \<noteq> ?j" "population ! ?j = population ! i" by auto
    with assms(4,5) j show False by (simp add: nth_eq_iff_index_eq)
  qed
  have "set (population ! ?j # res) \<subseteq> {population ! i |i. i < n \<and> i \<notin> sel}"
    using res(4) j f by auto
  with s res(1,2,3) nin show ?case by simp
qed

lemma random_sample_distinct:
  assumes "distinct population" and "k \<le> length population"
    and "setsize k < length population \<Longrightarrow> recurrente (length population) rs"
  shows "\<exists>sel. random_sample population k rs = Some (Inr sel) \<and>
           distinct sel \<and> set sel \<subseteq> set population \<and> length sel = k"
proof (cases "length population \<le> setsize k")
  case True
  with assms(2) have "random_sample population k rs
      = Some (Inr (sample_pool population (length population) k rs))"
    by (simp add: random_sample_def)
  with sample_pool_distinct [OF assms(2), of population rs] assms(1) show ?thesis by simp
next
  case False
  then have r: "recurrente (length population) rs" using assms(3) by simp
  from sample_set_distinct [OF r, of "{}" k population] assms(1,2) obtain res where
    res: "sample_set population (length population) k {} rs = Some res" "length res = k"
      "distinct res" "set res \<subseteq> {population ! j |j. j < length population \<and> j \<notin> {}}"
    by auto
  from res(4) have "set res \<subseteq> set population" by auto
  moreover have "random_sample population k rs = Some (Inr res)"
    using False assms(2) res(1) by (simp add: random_sample_def)
  ultimately show ?thesis using res(2,3) by blast
qed

lemma completar_emergencia_Inr:
  assumes "completar_emergencia gr (e, n) = Inr c"
  shows "nodo_destino c = n \<and> eid c = eid e \<and> severidad c = severidad e \<and>
         velocidad_requerida c = velocidad_requerida e"
  using assms
  by (auto simp: completar_emergencia_def split: sum.splits val.splits)

lemma completar_emergencia_exito:
  assumes "map_of (mg_nodes gr) n = Some d" "map_of d ''y'' = Some (Num y)"
    "map_of d ''x'' = Some (Num x)"
  shows "\<exists>c. completar_emergencia gr (e, n) = Inr c"
  using assms by (simp add: completar_emergencia_def getitem_def)

lemma mapE_destinos:
  assumes "mapE (completar_emergencia gr) ps = Inr res"
  shows "map nodo_destino res = map snd ps"
  using assms
proof (induction ps arbitrary: res)
  case Nil
  then show ?case by simp
next
  case (Cons p ps)
  obtain e n where p: "p = (e, n)" by (cases p)
  from Cons.prems obtain c cs where c: "completar_emergencia gr (e, n) = Inr c"
    and cs: "mapE (completar_emergencia gr) ps = Inr cs" and res: "res = c # cs"
    unfolding p by (auto split: sum.splits)
  from completar_emergencia_Inr [OF c] Cons.IH [OF cs] show ?case
    unfolding res p by simp
qed

lemma mapE_exito:
  assumes "\<forall>p \<in> set ps. \<exists>c. f p = Inr c"
  shows "\<exists>res. mapE f ps = Inr res"
  using assms
proof (induction ps)
  case Nil
  then show ?case by simp
next
  case (Cons p ps)
  then obtain c res where "f p = Inr c" "mapE f ps = Inr res" by auto
  then show ?case by simp
qed

lemma candidatos:
  assumes "distinct (map fst (mg_nodes gr))" "length ems \<le> length (mg_nodes gr)"
  shows "distinct (nodos_a_usar gr ems)"
    and "length ems \<le> length (nodos_a_usar gr ems)"
    and "set (nodos_a_usar gr ems) \<subseteq> fst ` set (mg_nodes gr)"
    and "set (nodos_a_usar gr ems) =
           (let internos = filter (\<lambda>n. 3 \<le> length (predecessors gr n) \<and> 3 \<le> length (successors gr n))
                             (map fst (mg_nodes gr))
            in if length internos < length ems then fst ` set (mg_nodes gr) else set internos)"
  using assms by (auto simp: nodos_a_usar_def filtrar_nodos_internos_def Let_def)

text \<open>
  C5 (amended): on a graph with at least as many nodes as emergencies, whose nodes carry
  numeric coordinates, the binding returns one destination per emergency, and the
  destinations are pairwise distinct. They are internal nodes (at least three predecessors
  and three successors) when the graph has at least as many internal nodes as emergencies,
  and nodes of the graph otherwise. This holds for every emergency list and every sequence
  of draws; only where the candidates are more than \<^verbatim>\<open>setsize\<close>, so that positions are
  drawn until one is new, the sequence must keep producing every position. The origin is
  not excluded: the function does not know it.
\<close>

theorem asignar_emergencias_destinos_distintos:
  assumes "distinct (map fst (mg_nodes gr))" and "mg_nodes gr \<noteq> []"
    and "length ems \<le> length (mg_nodes gr)"
    and "\<forall>(n, d) \<in> set (mg_nodes gr).
           (\<exists>y. map_of d ''y'' = Some (Num y)) \<and> (\<exists>x. map_of d ''x'' = Some (Num x))"
    and "setsize (length ems) < length (nodos_a_usar gr ems) \<Longrightarrow>
           recurrente (length (nodos_a_usar gr ems)) rs"
  shows "\<exists>res. asignar_emergencias_a_nodos gr ems rs = Some (Inr res) \<and>
           length res = length ems \<and>
           distinct (map nodo_destino res) \<and>
           set (map nodo_destino res) \<subseteq>
             (let internos = filter (\<lambda>n. 3 \<le> length (predecessors gr n) \<and> 3 \<le> length (successors gr n))
                               (map fst (mg_nodes gr))
              in if length internos < length ems then fst ` set (mg_nodes gr) else set internos)"
proof -
  let ?usar = "nodos_a_usar gr ems"
  note c = candidatos [OF assms(1,3)]
  from random_sample_distinct [OF c(1,2) assms(5)] obtain sel where
    sel: "random_sample ?usar (length ems) rs = Some (Inr sel)"
    and s: "distinct sel" "set sel \<subseteq> set ?usar" "length sel = length ems"
    by blast
  have "\<forall>p \<in> set (zip ems sel). \<exists>c. completar_emergencia gr p = Inr c"
  proof
    fix p assume p: "p \<in> set (zip ems sel)"
    obtain e n where pe: "p = (e, n)" by (cases p)
    with p have "n \<in> set sel" by (auto dest: set_zip_rightD)
    with s(2) c(3) have "n \<in> fst ` set (mg_nodes gr)" by blast
    then obtain d where d: "map_of (mg_nodes gr) n = Some d"
      using map_of_eq_None_iff [of "mg_nodes gr" n] by auto
    then have "(n, d) \<in> set (mg_nodes gr)" by (rule map_of_SomeD)
    with assms(4) obtain y x where "map_of d ''y'' = Some (Num y)" "map_of d ''x'' = Some (Num x)"
      by auto
    from completar_emergencia_exito [OF d this] show "\<exists>c. completar_emergencia gr p = Inr c"
      unfolding pe .
  qed
  from mapE_exito [OF this] obtain res where
    res: "mapE (completar_emergencia gr) (zip ems sel) = Inr res"
    by blast
  from mapE_destinos [OF res] s(3) have dest: "map nodo_destino res = sel"
    by simp
  have "asignar_emergencias_a_nodos gr ems rs = Some (Inr res)"
    using assms(2) sel res by (simp add: asignar_emergencias_a_nodos_def)
  moreover have "length res = length ems"
    using dest s(3) by (metis length_map)
  moreover have "distinct (map nodo_destino res)"
    using s(1) by (simp add: dest)
  moreover have "set (map nodo_destino res) \<subseteq>
             (let internos = filter (\<lambda>n. 3 \<le> length (predecessors gr n) \<and> 3 \<le> length (successors gr n))
                               (map fst (mg_nodes gr))
              in if length internos < length ems then fst ` set (mg_nodes gr) else set internos)"
    using s(2) unfolding dest c(4) .
  ultimately show ?thesis by blast
qed

text \<open>
  C5 (as stated): no destination is ever the origin. The function takes no origin and
  samples from the internal nodes or from all nodes; on the instance, whose origin is
  node 1, the draw 0 binds the emergency to node 1.
\<close>

theorem asignar_emergencias_destino_origen_counterexample:
  "asignar_emergencias_a_nodos ejemplo_multigrafo
     [\<lparr>eid = 1, severidad = ''media'', velocidad_requerida = 40, ambulancia_id = 1,
       origen = ''clinica''\<rparr>] (\<lambda>n. 0)
   = Some (Inr [\<lparr>eid = 1, severidad = ''media'', velocidad_requerida = 40, ambulancia_id = 1,
           origen = ''clinica'', nodo_destino = 1, latitud = Num 6, longitud = Num (- 75)\<rparr>])
   \<and> nodo_origen ejemplo_modelo = 1"
  by (simp add: asignar_emergencias_a_nodos_def nodos_a_usar_def ejemplo_multigrafo_def
      ejemplo_modelo_def filtrar_nodos_internos_def predecessors_def successors_def
      random_sample_def setsize_def completar_emergencia_def getitem_def)

lemma ejemplo_barrio_internos: "filtrar_nodos_internos ejemplo_barrio 3 3 = [1, 2, 3, 4]"
  by (simp add: filtrar_nodos_internos_def ejemplo_barrio_def predecessors_def successors_def)

theorem asignar_emergencias_destinos_distintos_witness:
  "(\<exists>res. asignar_emergencias_a_nodos ejemplo_barrio ejemplo_llamadas (\<lambda>n. 3) = Some (Inr res) \<and>
         length res = Suc (Suc 0) \<and> distinct (map nodo_destino res) \<and>
         set (map nodo_destino res) \<subseteq> {1, 2, 3, 4}) \<and>
   (\<exists>res. asignar_emergencias_a_nodos ejemplo_aldea ejemplo_llamadas (\<lambda>i. i) = Some (Inr res) \<and>
         length res = Suc (Suc 0) \<and> distinct (map nodo_destino res) \<and>
         set (map nodo_destino res) \<subseteq> {1..22})"
proof -
  have i: "filter (\<lambda>n. 3 \<le> length (predecessors ejemplo_barrio n) \<and>
                       3 \<le> length (successors ejemplo_barrio n))
             (map fst (mg_nodes ejemplo_barrio)) = [1, 2, 3, 4]"
    using ejemplo_barrio_internos by (simp add: filtrar_nodos_internos_def)
  have u: "nodos_a_usar ejemplo_barrio ejemplo_llamadas = [1, 2, 3, 4]"
    by (simp add: nodos_a_usar_def ejemplo_barrio_internos ejemplo_llamadas_def)
  have "\<exists>res. asignar_emergencias_a_nodos ejemplo_barrio ejemplo_llamadas (\<lambda>n. 3) = Some (Inr res) \<and>
         length res = length ejemplo_llamadas \<and> distinct (map nodo_destino res) \<and>
         set (map nodo_destino res) \<subseteq>
             (let internos = filter (\<lambda>n. 3 \<le> length (predecessors ejemplo_barrio n) \<and>
                                       3 \<le> length (successors ejemplo_barrio n))
                               (map fst (mg_nodes ejemplo_barrio))
              in if length internos < length ejemplo_llamadas
                 then fst ` set (mg_nodes ejemplo_barrio) else set internos)"
  proof (rule asignar_emergencias_destinos_distintos)
    show "distinct (map fst (mg_nodes ejemplo_barrio))" by (simp add: ejemplo_barrio_def)
    show "mg_nodes ejemplo_barrio \<noteq> []" by (simp add: ejemplo_barrio_def)
    show "length ejemplo_llamadas \<le> length (mg_nodes ejemplo_barrio)"
      by (simp add: ejemplo_barrio_def ejemplo_llamadas_def)
    show "\<forall>(n, d) \<in> set (mg_nodes ejemplo_barrio).
           (\<exists>y. map_of d ''y'' = Some (Num y)) \<and> (\<exists>x. map_of d ''x'' = Some (Num x))"
      by (simp add: ejemplo_barrio_def)
    assume "setsize (length ejemplo_llamadas) < length (nodos_a_usar ejemplo_barrio ejemplo_llamadas)"
    then have "setsize (length ejemplo_llamadas) < 4" by (simp only: u) simp
    then show "recurrente (length (nodos_a_usar ejemplo_barrio ejemplo_llamadas)) (\<lambda>n. 3)"
      by (simp add: setsize_def ejemplo_llamadas_def)
  qed
  then have barrio: "\<exists>res. asignar_emergencias_a_nodos ejemplo_barrio ejemplo_llamadas (\<lambda>n. 3) = Some (Inr res) \<and>
         length res = Suc (Suc 0) \<and> distinct (map nodo_destino res) \<and>
         set (map nodo_destino res) \<subseteq> {1, 2, 3, 4}"
    by (simp add: i ejemplo_llamadas_def)
  have v: "nodos_a_usar ejemplo_aldea ejemplo_llamadas = [1..22]"
    by (simp add: nodos_a_usar_def filtrar_nodos_internos_def predecessors_def successors_def
        ejemplo_aldea_def ejemplo_llamadas_def comp_def)
  have "\<exists>res. asignar_emergencias_a_nodos ejemplo_aldea ejemplo_llamadas (\<lambda>i. i) = Some (Inr res) \<and>
         length res = length ejemplo_llamadas \<and> distinct (map nodo_destino res) \<and>
         set (map nodo_destino res) \<subseteq>
             (let internos = filter (\<lambda>n. 3 \<le> length (predecessors ejemplo_aldea n) \<and>
                                       3 \<le> length (successors ejemplo_aldea n))
                               (map fst (mg_nodes ejemplo_aldea))
              in if length internos < length ejemplo_llamadas
                 then fst ` set (mg_nodes ejemplo_aldea) else set internos)"
  proof (rule asignar_emergencias_destinos_distintos)
    show "distinct (map fst (mg_nodes ejemplo_aldea))" by (simp add: ejemplo_aldea_def comp_def)
    show "mg_nodes ejemplo_aldea \<noteq> []" by (simp add: ejemplo_aldea_def)
    show "length ejemplo_llamadas \<le> length (mg_nodes ejemplo_aldea)"
      by (simp add: ejemplo_aldea_def ejemplo_llamadas_def)
    show "\<forall>(n, d) \<in> set (mg_nodes ejemplo_aldea).
           (\<exists>y. map_of d ''y'' = Some (Num y)) \<and> (\<exists>x. map_of d ''x'' = Some (Num x))"
      by (auto simp: ejemplo_aldea_def)
    show "recurrente (length (nodos_a_usar ejemplo_aldea ejemplo_llamadas)) (\<lambda>i. i)"
      by (rule recurrente_identidad) (simp add: v)
  qed
  then have aldea: "\<exists>res. asignar_emergencias_a_nodos ejemplo_aldea ejemplo_llamadas (\<lambda>i. i) = Some (Inr res) \<and>
         length res = Suc (Suc 0) \<and> distinct (map nodo_destino res) \<and>
         set (map nodo_destino res) \<subseteq> {1..22}"
    by (simp add: ejemplo_llamadas_def ejemplo_aldea_def predecessors_def successors_def comp_def
        image_image)
  from barrio aldea show ?thesis by (rule conjI)
qed

text \<open>
  The same call evaluated: the two destinations are the internal nodes 4 and 1, and with
  the draw 0 the first destination is node 1 here too.
\<close>

lemma asignar_emergencias_barrio:
  "map_option (map_sum id (map nodo_destino))
     (asignar_emergencias_a_nodos ejemplo_barrio ejemplo_llamadas (\<lambda>n. 3)) = Some (Inr [4, 1])"
  "map_option (map_sum id (map nodo_destino))
     (asignar_emergencias_a_nodos ejemplo_barrio ejemplo_llamadas (\<lambda>n. 0)) = Some (Inr [1, 4])"
  by code_simp+

text \<open>On the twenty-two nodes the draws 0, 1 are two new positions.\<close>

lemma asignar_emergencias_aldea:
  "map_option (map_sum id (map nodo_destino))
     (asignar_emergencias_a_nodos ejemplo_aldea ejemplo_llamadas (\<lambda>i. i)) = Some (Inr [1, 2])"
  by (simp add: asignar_emergencias_a_nodos_def nodos_a_usar_def filtrar_nodos_internos_def
      predecessors_def successors_def ejemplo_aldea_def ejemplo_llamadas_def random_sample_def
      setsize_def sorteo_nuevo.simps resto_def completar_emergencia_def getitem_def comp_def
      numeral_2_eq_2 upto.simps)

text \<open>
  Twenty-five candidates are more than \<^verbatim>\<open>setsize\<close>: positions are drawn until one is new.
  The draws 1, 24 give the elements at positions 1 and 24; the draws 1, 1, 24 give the same,
  the repeated position being drawn again; on the constant draw 1 the call does not return.
\<close>

lemma random_sample_conjunto:
  "random_sample [1..<26] 2 (\<lambda>i. if i = 0 then 1 else 24) = Some (Inr [2, 25])"
  "random_sample [1..<26] 2 (\<lambda>i. if i \<le> 1 then 1 else 24) = Some (Inr [2, 25])"
  by (simp_all add: random_sample_def setsize_def numeral_2_eq_2 sorteo_nuevo.simps resto_def)

lemma random_sample_no_retorna: "random_sample [1..<26] 2 (\<lambda>i. 1) = None"
proof -
  have "sorteo_nuevo 25 {1} (\<lambda>i. 1) = None"
  proof (cases "sorteo_nuevo 25 {1} (\<lambda>i. 1)")
    case None
    then show ?thesis .
  next
    case (Some y)
    from sorteo_nuevo_Some [OF this] show ?thesis by simp
  qed
  moreover have "sorteo_nuevo 25 {} (\<lambda>i. 1) = Some (1, \<lambda>i. 1)"
    by (subst sorteo_nuevo.simps) (simp add: resto_def)
  ultimately show ?thesis
    by (simp add: random_sample_def setsize_def numeral_2_eq_2)
qed

text \<open>A node whose coordinate is a text: the report of the loop raises.\<close>

lemma asignar_emergencias_coordenada_texto:
  "asignar_emergencias_a_nodos
     \<lparr>mg_nodes = [(1, [(''y'', Txt ''6.2''), (''x'', Num (- 75))])], mg_edges = []\<rparr>
     [\<lparr>eid = 1, severidad = ''media'', velocidad_requerida = 40, ambulancia_id = 1,
       origen = ''clinica''\<rparr>] (\<lambda>n. 0)
   = Some (Inl ValueError)"
  by (simp add: asignar_emergencias_a_nodos_def nodos_a_usar_def filtrar_nodos_internos_def
      predecessors_def successors_def random_sample_def setsize_def completar_emergencia_def
      getitem_def)

subsection \<open>Simplification to a simple directed graph\<close>

lemma update_nuevo:
  "k \<notin> fst ` set al \<Longrightarrow> AList.update k v al = al @ [(k, v)]"
  by (induction al) auto

lemma dict_update_append:
  assumes "distinct (map fst d)" and "fst ` set acc \<inter> fst ` set d = {}"
  shows "dict_update acc d = acc @ d"
  using assms
proof (induction d arbitrary: acc)
  case Nil
  then show ?case by simp
next
  case (Cons p d)
  obtain k v where p: "p = (k, v)" by (cases p)
  from Cons.prems have k: "k \<notin> fst ` set acc" unfolding p by auto
  have "fst ` set (acc @ [(k, v)]) \<inter> fst ` set d = {}"
    using Cons.prems unfolding p by auto
  moreover have "distinct (map fst d)" using Cons.prems by simp
  ultimately have "dict_update (acc @ [(k, v)]) d = (acc @ [(k, v)]) @ d"
    by (rule Cons.IH [rotated])
  then show ?case unfolding p by (simp add: update_nuevo [OF k])
qed

lemma dict_update_vacio: "distinct (map fst d) \<Longrightarrow> dict_update [] d = d"
  using dict_update_append [of d "[]"] by simp

lemma dg_get_asegurar_nodo: "dg_get (asegurar_nodo g n) i j = dg_get g i j"
proof (cases "n \<in> fst ` set (dg_adj g)")
  case True
  then show ?thesis by (simp add: asegurar_nodo_def)
next
  case False
  then have "map_of (dg_adj g) n = None" by (simp add: map_of_eq_None_iff)
  then show ?thesis
    using False by (auto simp: asegurar_nodo_def dg_get_def map_add_def split: option.splits)
qed

lemma asegurar_nodo_presente: "n \<in> fst ` set (dg_adj (asegurar_nodo g n))"
  by (simp add: asegurar_nodo_def)

lemma asegurar_nodo_mantiene: "m \<in> fst ` set (dg_adj g) \<Longrightarrow> m \<in> fst ` set (dg_adj (asegurar_nodo g n))"
  by (simp add: asegurar_nodo_def)

lemma dg_get_add_edge:
  "dg_get (cuerpo_add_edge g u v a) i j =
     (if (i, j) = (u, v) then Some (dict_update (case dg_get g u v of None \<Rightarrow> [] | Some d \<Rightarrow> d) a)
      else dg_get g i j)"
proof -
  let ?g1 = "asegurar_nodo (asegurar_nodo g u) v"
  have "u \<in> fst ` set (dg_adj ?g1)"
    by (intro asegurar_nodo_mantiene asegurar_nodo_presente)
  then obtain ns where ns: "map_of (dg_adj ?g1) u = Some ns"
    using map_of_eq_None_iff [of "dg_adj ?g1" u] by auto
  have g1: "\<And>i j. dg_get ?g1 i j = dg_get g i j"
    by (simp add: dg_get_asegurar_nodo)
  have uv: "map_of ns v = dg_get g u v"
    using g1 [of u v] ns by (simp add: dg_get_def)
  have other: "\<And>j. map_of ns j = dg_get g u j"
    using g1 [of u] ns by (simp add: dg_get_def)
  show ?thesis
  proof (cases "i = u")
    case True
    then show ?thesis
      using ns uv other [of j]
      by (simp add: cuerpo_add_edge_def Let_def dg_get_def update_conv')
  next
    case False
    then show ?thesis
      using ns g1 [of i j]
      by (simp add: cuerpo_add_edge_def Let_def dg_get_def update_conv')
  qed
qed

lemma dg_wf_asegurar_nodo: "dg_wf g \<Longrightarrow> dg_wf (asegurar_nodo g n)"
  by (auto simp: dg_wf_def asegurar_nodo_def)

lemma list_all_update:
  assumes "list_all P al" and "P (k, v)"
  shows "list_all P (AList.update k v al)"
  using assms by (induction al) auto

lemma dg_wf_add_edge:
  assumes "dg_wf g"
  shows "dg_wf (cuerpo_add_edge g u v a)"
proof -
  let ?g1 = "asegurar_nodo (asegurar_nodo g u) v"
  have w1: "dg_wf ?g1" using assms by (intro dg_wf_asegurar_nodo)
  have "u \<in> fst ` set (dg_adj ?g1)"
    by (intro asegurar_nodo_mantiene asegurar_nodo_presente)
  then obtain ns where ns: "map_of (dg_adj ?g1) u = Some ns"
    using map_of_eq_None_iff [of "dg_adj ?g1" u] by auto
  then have "(u, ns) \<in> set (dg_adj ?g1)" by (rule map_of_SomeD)
  with w1 have dns: "distinct (map fst ns)"
    by (auto simp: dg_wf_def list_all_iff)
  let ?ns' = "AList.update v (dict_update (case map_of ns v of None \<Rightarrow> [] | Some d \<Rightarrow> d) a) ns"
  have d': "distinct (map fst ?ns')" using dns by (rule distinct_update)
  have keys: "map fst (AList.update u ?ns' (dg_adj ?g1)) = map fst (dg_adj ?g1)"
    using \<open>u \<in> fst ` set (dg_adj ?g1)\<close> by (simp add: update_keys)
  have la: "list_all (\<lambda>(u, nbrs). distinct (map fst nbrs)) (AList.update u ?ns' (dg_adj ?g1))"
    using w1 d' by (intro list_all_update) (simp_all add: dg_wf_def)
  show ?thesis
    using w1 keys la ns by (simp add: cuerpo_add_edge_def Let_def dg_wf_def)
qed

lemma add_edge_nodos:
  assumes "u \<in> fst ` set (dg_adj g)" "v \<in> fst ` set (dg_adj g)"
  shows "dg_node (cuerpo_add_edge g u v a) = dg_node g \<and> map fst (dg_adj (cuerpo_add_edge g u v a)) = map fst (dg_adj g)"
  using assms by (simp add: cuerpo_add_edge_def Let_def asegurar_nodo_def update_keys)

lemma nodos_bucle:
  assumes "distinct (map fst (acc @ ns))" and "list_all (\<lambda>(n, d). distinct (map fst d)) ns"
    and "dg_node g = acc" and "dg_adj g = map (\<lambda>(n, d). (n, [])) acc"
  shows "fold (\<lambda>(nodo, data) g. cuerpo_add_node g nodo data) ns g =
           \<lparr>dg_node = acc @ ns, dg_adj = map (\<lambda>(n, d). (n, [])) (acc @ ns)\<rparr>"
  using assms
proof (induction ns arbitrary: acc g)
  case Nil
  then show ?case by simp
next
  case (Cons p ns)
  obtain n d where p: "p = (n, d)" by (cases p)
  from Cons.prems(1) have "n \<notin> fst ` set acc" unfolding p by auto
  then have none: "map_of (dg_node g) n = None"
    using Cons.prems(3) by (simp add: map_of_eq_None_iff)
  from Cons.prems(2) have dd: "distinct (map fst d)" unfolding p by simp
  let ?g1 = "cuerpo_add_node g n d"
  have g1: "dg_node ?g1 = acc @ [(n, d)]" "dg_adj ?g1 = map (\<lambda>(n, d). (n, [])) (acc @ [(n, d)])"
    using none Cons.prems(3,4) by (simp_all add: cuerpo_add_node_def dict_update_vacio [OF dd])
  have "fold (\<lambda>(nodo, data) g. cuerpo_add_node g nodo data) ns ?g1 =
           \<lparr>dg_node = (acc @ [(n, d)]) @ ns, dg_adj = map (\<lambda>(n, d). (n, [])) ((acc @ [(n, d)]) @ ns)\<rparr>"
    using Cons.prems(1,2) g1 unfolding p by (intro Cons.IH) simp_all
  then show ?case unfolding p by simp
qed

lemma nodos_copiados:
  assumes "distinct (map fst ns)" and "list_all (\<lambda>(n, d). distinct (map fst d)) ns"
  shows "fold (\<lambda>(nodo, data) g. cuerpo_add_node g nodo data) ns dg_vacio =
           \<lparr>dg_node = ns, dg_adj = map (\<lambda>(n, d). (n, [])) ns\<rparr>"
  using nodos_bucle [of "[]" ns dg_vacio] assms by (simp add: dg_vacio_def)

lemma nodos_kw:
  assumes "list_all (\<lambda>(n, d). kw_nodo_admisible d) ns"
  shows "foldE (\<lambda>(nodo, data) g. add_node g nodo data) ns g =
           Inr (fold (\<lambda>(nodo, data) g. cuerpo_add_node g nodo data) ns g)"
  using assms
proof (induction ns arbitrary: g)
  case Nil
  then show ?case by simp
next
  case (Cons p ns)
  obtain n d where p: "p = (n, d)" by (cases p)
  from Cons.prems have "kw_nodo_admisible d" "list_all (\<lambda>(n, d). kw_nodo_admisible d) ns"
    unfolding p by simp_all
  with Cons.IH [of "cuerpo_add_node g n d"] show ?case
    unfolding p by (simp add: add_node_def)
qed

lemma aristas_de_adj:
  assumes "distinct (map fst adj)" and "list_all (\<lambda>(u, nbrs). distinct (map fst nbrs)) adj"
  shows "distinct (concat (map (\<lambda>(u, nbrs). map (\<lambda>(v, d). (u, v)) nbrs) adj)) \<and>
         (\<forall>u v d. (u, v, d) \<in> set (concat (map (\<lambda>(u, nbrs). map (\<lambda>(v, d). (u, v, d)) nbrs) adj))
            \<longleftrightarrow> (\<exists>nbrs. map_of adj u = Some nbrs \<and> map_of nbrs v = Some d))"
  using assms
proof (induction adj)
  case Nil
  then show ?case by simp
next
  case (Cons p adj)
  obtain w ns where p: "p = (w, ns)" by (cases p)
  from Cons.prems have w: "w \<notin> fst ` set adj" and dns: "distinct (map fst ns)"
    and ih: "distinct (concat (map (\<lambda>(u, nbrs). map (\<lambda>(v, d). (u, v)) nbrs) adj))"
      "\<forall>u v d. (u, v, d) \<in> set (concat (map (\<lambda>(u, nbrs). map (\<lambda>(v, d). (u, v, d)) nbrs) adj))
            \<longleftrightarrow> (\<exists>nbrs. map_of adj u = Some nbrs \<and> map_of nbrs v = Some d)"
    using Cons.IH unfolding p by auto
  have h1: "distinct (map (\<lambda>(v, d). (w, v)) ns)"
    using dns by (simp add: distinct_map inj_on_def split_def)
  have h2: "set (map (\<lambda>(v, d). (w, v)) ns) \<inter>
        set (concat (map (\<lambda>(u, nbrs). map (\<lambda>(v, d). (u, v)) nbrs) adj)) = {}"
    using w by (auto simp: image_iff)
  have d: "distinct (concat (map (\<lambda>(u, nbrs). map (\<lambda>(v, d). (u, v)) nbrs) (p # adj)))"
    unfolding p using h1 h2 ih(1) by simp
  have m: "\<forall>u v d. (u, v, d) \<in> set (concat (map (\<lambda>(u, nbrs). map (\<lambda>(v, d). (u, v, d)) nbrs) (p # adj)))
            \<longleftrightarrow> (\<exists>nbrs. map_of (p # adj) u = Some nbrs \<and> map_of nbrs v = Some d)"
  proof (intro allI)
    fix u v d
    show "(u, v, d) \<in> set (concat (map (\<lambda>(u, nbrs). map (\<lambda>(v, d). (u, v, d)) nbrs) (p # adj)))
            \<longleftrightarrow> (\<exists>nbrs. map_of (p # adj) u = Some nbrs \<and> map_of nbrs v = Some d)"
    proof -
      let ?F = "\<lambda>(u, nbrs). map (\<lambda>(v, d). (u, v, d)) nbrs"
      have sp: "(u, v, d) \<in> set (concat (map ?F (p # adj))) \<longleftrightarrow>
          (u, v, d) \<in> set (map (\<lambda>(v, d). (w, v, d)) ns) \<or> (u, v, d) \<in> set (concat (map ?F adj))"
        unfolding p by (simp only: list.map concat.simps set_append Un_iff prod.case)
      show ?thesis
      proof (cases "u = w")
        case True
        have "map_of adj w = None" using w by (simp add: map_of_eq_None_iff)
        then have "\<not> (\<exists>nbrs. map_of adj w = Some nbrs \<and> map_of nbrs v = Some d)" by simp
        with ih(2) have n: "(w, v, d) \<notin> set (concat (map ?F adj))"
          by blast
        have "(w, v, d) \<in> set (map (\<lambda>(v, d). (w, v, d)) ns) \<longleftrightarrow> (v, d) \<in> set ns"
          by (auto simp: image_iff)
        also have "\<dots> \<longleftrightarrow> map_of ns v = Some d"
          using dns by simp
        finally have e: "(w, v, d) \<in> set (map (\<lambda>(v, d). (w, v, d)) ns) \<longleftrightarrow> map_of ns v = Some d" .
        have r: "(\<exists>nbrs. map_of (p # adj) w = Some nbrs \<and> map_of nbrs v = Some d) \<longleftrightarrow>
            map_of ns v = Some d"
          unfolding p by simp
        from n e r sp [unfolded True] show ?thesis unfolding True by blast
      next
        case False
        then have e: "(u, v, d) \<notin> set (map (\<lambda>(v, d). (w, v, d)) ns)" by auto
        have r: "(\<exists>nbrs. map_of (p # adj) u = Some nbrs \<and> map_of nbrs v = Some d) \<longleftrightarrow>
            (\<exists>nbrs. map_of adj u = Some nbrs \<and> map_of nbrs v = Some d)"
          unfolding p using False by simp
        from e r sp ih(2) show ?thesis by blast
      qed
    qed
  qed
  from d m show ?case by blast
qed

lemma dg_edges_de_datos: "dg_edges g = map (\<lambda>(u, v, d). (u, v)) (dg_edges_data g)"
  by (simp add: dg_edges_def dg_edges_data_def map_concat comp_def split_def)

lemma dg_wf_aristas:
  assumes "dg_wf g"
  shows "distinct (dg_edges g)"
    and "(u, v, d) \<in> set (dg_edges_data g) \<longleftrightarrow> dg_get g u v = Some d"
    and "(u, v) \<in> set (dg_edges g) \<longleftrightarrow> dg_get g u v \<noteq> None"
proof -
  from assms have a: "distinct (map fst (dg_adj g))"
    "list_all (\<lambda>(u, nbrs). distinct (map fst nbrs)) (dg_adj g)"
    by (simp_all add: dg_wf_def)
  from aristas_de_adj [OF a] show "distinct (dg_edges g)" by (simp add: dg_edges_def)
  from aristas_de_adj [OF a] show m: "(u, v, d) \<in> set (dg_edges_data g) \<longleftrightarrow> dg_get g u v = Some d"
    by (auto simp: dg_edges_data_def dg_get_def split: option.splits)
  have "(u, v) \<in> set (dg_edges g) \<longleftrightarrow> (\<exists>d. (u, v, d) \<in> set (dg_edges_data g))"
    unfolding dg_edges_de_datos by force
  also have "\<dots> \<longleftrightarrow> (\<exists>d. dg_get g u v = Some d)"
    using aristas_de_adj [OF a] by (auto simp: dg_edges_data_def dg_get_def split: option.splits)
  finally show "(u, v) \<in> set (dg_edges g) \<longleftrightarrow> dg_get g u v \<noteq> None" by auto
qed

lemma dg_wf_datos_distintos:
  assumes "dg_wf g"
  shows "distinct (dg_edges_data g)"
  using dg_wf_aristas(1) [OF assms] unfolding dg_edges_de_datos by (simp add: distinct_map)

lemma admisible_cap:
  assumes "capacidad_admisible d"
  shows "- 1 < cap_de d"
    and "(case map_of d ''capacity'' of None \<Rightarrow> Num 0 | Some v \<Rightarrow> v) = Num (cap_de d)"
  using assms
  by (auto simp: capacidad_admisible_def cap_de_def split: option.splits val.splits)

lemma elegir_mejor_max:
  assumes "\<forall>(k, d) \<in> set ps. capacidad_admisible d"
  shows "\<exists>mc' md'. elegir_mejor ps (mc, md) = Inr (mc', md') \<and> mc \<le> mc' \<and>
           (\<forall>(k, d) \<in> set ps. cap_de d \<le> mc') \<and>
           ((mc' = mc \<and> md' = md) \<or>
            (\<exists>k d. (k, d) \<in> set ps \<and> md' = Some d \<and> mc' = cap_de d \<and> mc < mc'))"
  using assms
proof (induction ps arbitrary: mc md)
  case Nil
  then show ?case by simp
next
  case (Cons p ps)
  obtain k d where p: "p = (k, d)" by (cases p)
  from Cons.prems have ad: "capacidad_admisible d"
    and rest: "\<forall>(k, d) \<in> set ps. capacidad_admisible d"
    unfolding p by auto
  note v = admisible_cap(2) [OF ad]
  show ?case
  proof (cases "mc < cap_de d")
    case True
    from Cons.IH [OF rest, of "cap_de d" "Some d"] obtain mc' md' where
      r: "elegir_mejor ps (cap_de d, Some d) = Inr (mc', md')" "cap_de d \<le> mc'"
        "\<forall>(k, d) \<in> set ps. cap_de d \<le> mc'"
        "(mc' = cap_de d \<and> md' = Some d) \<or>
         (\<exists>k' d'. (k', d') \<in> set ps \<and> md' = Some d' \<and> mc' = cap_de d' \<and> cap_de d < mc')"
      by blast
    have e: "elegir_mejor (p # ps) (mc, md) = Inr (mc', md')"
      unfolding p using True r(1) by (simp add: v)
    have "\<exists>k' d'. (k', d') \<in> set (p # ps) \<and> md' = Some d' \<and> mc' = cap_de d' \<and> mc < mc'"
      using r(2,4) True unfolding p by auto
    moreover have "\<forall>(k, d) \<in> set (p # ps). cap_de d \<le> mc'"
      using r(2,3) unfolding p by simp
    moreover have "mc \<le> mc'" using True r(2) by simp
    ultimately show ?thesis using e by blast
  next
    case False
    from Cons.IH [OF rest, of mc md] obtain mc' md' where
      r: "elegir_mejor ps (mc, md) = Inr (mc', md')" "mc \<le> mc'"
        "\<forall>(k, d) \<in> set ps. cap_de d \<le> mc'"
        "(mc' = mc \<and> md' = md) \<or>
         (\<exists>k' d'. (k', d') \<in> set ps \<and> md' = Some d' \<and> mc' = cap_de d' \<and> mc < mc')"
      by blast
    have e: "elegir_mejor (p # ps) (mc, md) = Inr (mc', md')"
      unfolding p using False r(1) by (simp add: v)
    have "(mc' = mc \<and> md' = md) \<or>
       (\<exists>k' d'. (k', d') \<in> set (p # ps) \<and> md' = Some d' \<and> mc' = cap_de d' \<and> mc < mc')"
      using r(4) unfolding p by auto
    moreover have "\<forall>(k, d) \<in> set (p # ps). cap_de d \<le> mc'"
      using r(2,3) False unfolding p by simp
    ultimately show ?thesis using e r(2) by blast
  qed
qed

lemma dato_elegido_max:
  assumes "\<forall>(k, d) \<in> set (paralelas mg i j). capacidad_admisible d"
    and "paralelas mg i j \<noteq> []"
  shows "\<exists>k d. (k, d) \<in> set (paralelas mg i j) \<and> dato_elegido mg i j = Some d \<and>
           (\<forall>(k', d') \<in> set (paralelas mg i j). cap_de d' \<le> cap_de d)"
proof (cases "paralelas mg i j")
  case Nil
  with assms(2) show ?thesis by simp
next
  case (Cons a rest)
  obtain k d where a: "a = (k, d)" by (cases a)
  show ?thesis
  proof (cases rest)
    case Nil
    then show ?thesis using Cons a by (simp add: dato_elegido_def)
  next
    case (Cons b rest')
    let ?ps = "paralelas mg i j"
    from elegir_mejor_max [OF assms(1), of "- 1" None] obtain mc' md' where
      r: "elegir_mejor ?ps (- 1, None) = Inr (mc', md')"
        "\<forall>(k, d) \<in> set ?ps. cap_de d \<le> mc'"
        "(mc' = - 1 \<and> md' = None) \<or>
         (\<exists>k d. (k, d) \<in> set ?ps \<and> md' = Some d \<and> mc' = cap_de d \<and> - 1 < mc')"
      by blast
    have "(k, d) \<in> set ?ps" using \<open>?ps = a # rest\<close> a by simp
    with assms(1) r(2) have "- 1 < cap_de d" "cap_de d \<le> mc'"
      using admisible_cap(1) by auto
    then have "mc' \<noteq> - 1" by simp
    with r(3) obtain k2 d2 where c: "(k2, d2) \<in> set ?ps" "md' = Some d2" "mc' = cap_de d2"
      by blast
    have "dato_elegido mg i j = Some d2"
      using r(1) c(2) \<open>?ps = a # rest\<close> Cons a
      by (simp add: dato_elegido_def del: elegir_mejor.simps)
    with c r(2) show ?thesis by blast
  qed
qed

lemma simplificar_arista_paso:
  assumes "(i, j, key, data) \<in> set (mg_edges mg)" and "dato_elegido mg i j = Some d"
    and "kw_arista_admisible d"
  shows "simplificar_arista mg (i, j, key, data) (gs, pares) =
           Inr (if (i, j) \<in> pares then (gs, pares)
                else (cuerpo_add_edge gs i j d, insert (i, j) pares))"
proof -
  from assms(1) have mem: "(key, data) \<in> set (paralelas mg i j)"
    by (force simp: paralelas_def)
  show ?thesis
  proof (cases "paralelas mg i j")
    case Nil
    with mem show ?thesis by simp
  next
    case (Cons a rest)
    show ?thesis
    proof (cases rest)
      case Nil
      with Cons mem have a: "a = (key, data)" by simp
      with Cons Nil assms(2) have "d = data" by (simp add: dato_elegido_def)
      then show ?thesis
        using Cons Nil assms(3)
        by (simp add: simplificar_arista_def number_of_edges_def add_edge_def)
    next
      case (Cons b rest')
      with \<open>paralelas mg i j = a # rest\<close> have n: "1 < number_of_edges mg i j"
        by (simp add: number_of_edges_def)
      from assms(2) \<open>paralelas mg i j = a # rest\<close> Cons
      obtain mc where "elegir_mejor (paralelas mg i j) (- 1, None) = Inr (mc, Some d)"
        by (cases a)
          (auto simp: dato_elegido_def simp del: elegir_mejor.simps
            split: sum.splits option.splits prod.splits)
      with n assms(3) show ?thesis by (simp add: simplificar_arista_def add_edge_def)
    qed
  qed
qed

lemma simplificar_bucle:
  assumes "\<forall>(i, j, k, d) \<in> set (mg_edges mg).
             \<exists>d'. dato_elegido mg i j = Some d' \<and> distinct (map fst d') \<and> kw_arista_admisible d'"
    and "set es \<subseteq> set (mg_edges mg)" and "dg_wf gs"
    and "\<forall>i j. dg_get gs i j = (if (i, j) \<in> pares then dato_elegido mg i j else None)"
  shows "\<exists>gs'. foldE (simplificar_arista mg) es (gs, pares) = Inr (gs', pares \<union> pares_de es) \<and>
           dg_wf gs' \<and>
           (\<forall>i j. dg_get gs' i j = (if (i, j) \<in> pares \<union> pares_de es then dato_elegido mg i j else None))"
  using assms(2-)
proof (induction es arbitrary: gs pares)
  case Nil
  then show ?case by (simp add: pares_de_def)
next
  case (Cons e es)
  obtain i j key data where e: "e = (i, j, key, data)" by (cases e)
  from Cons.prems(1) have mem: "(i, j, key, data) \<in> set (mg_edges mg)"
    and sub: "set es \<subseteq> set (mg_edges mg)"
    unfolding e by auto
  from assms(1) mem obtain d where d: "dato_elegido mg i j = Some d" "distinct (map fst d)"
      "kw_arista_admisible d"
    by blast
  note paso = simplificar_arista_paso [OF mem d(1,3), of gs pares]
  have pd: "pares_de (e # es) = insert (i, j) (pares_de es)"
    unfolding e by (simp add: pares_de_def)
  show ?case
  proof (cases "(i, j) \<in> pares")
    case True
    from Cons.IH [OF sub Cons.prems(2,3)] obtain gs' where
      "foldE (simplificar_arista mg) es (gs, pares) = Inr (gs', pares \<union> pares_de es)"
      "dg_wf gs'"
      "\<forall>i j. dg_get gs' i j = (if (i, j) \<in> pares \<union> pares_de es then dato_elegido mg i j else None)"
      by blast
    moreover have "pares \<union> pares_de (e # es) = pares \<union> pares_de es"
      using True pd by auto
    ultimately show ?thesis using True paso unfolding e by simp
  next
    case False
    let ?g1 = "cuerpo_add_edge gs i j d"
    from False Cons.prems(3) have none: "dg_get gs i j = None" by simp
    have w1: "dg_wf ?g1" using Cons.prems(2) by (rule dg_wf_add_edge)
    have g1: "\<forall>a b. dg_get ?g1 a b = (if (a, b) \<in> insert (i, j) pares then dato_elegido mg a b else None)"
      using Cons.prems(3) none d False by (simp add: dg_get_add_edge dict_update_vacio)
    from Cons.IH [OF sub w1 g1] obtain gs' where
      "foldE (simplificar_arista mg) es (?g1, insert (i, j) pares) = Inr (gs', insert (i, j) pares \<union> pares_de es)"
      "dg_wf gs'"
      "\<forall>a b. dg_get gs' a b = (if (a, b) \<in> insert (i, j) pares \<union> pares_de es then dato_elegido mg a b else None)"
      by blast
    moreover have "pares \<union> pares_de (e # es) = insert (i, j) pares \<union> pares_de es"
      using pd by auto
    ultimately show ?thesis using False paso unfolding e by simp
  qed
qed

lemma simplificar_arista_nodos:
  assumes "simplificar_arista mg e st = Inr st1"
    and "case e of (i, j, k, d) \<Rightarrow> i \<in> set ns \<and> j \<in> set ns"
    and "dg_node (fst st) = N \<and> map fst (dg_adj (fst st)) = ns"
  shows "dg_node (fst st1) = N \<and> map fst (dg_adj (fst st1)) = ns"
proof -
  obtain i j key data where e: "e = (i, j, key, data)" by (cases e)
  obtain gs pares where st: "st = (gs, pares)" by (cases st)
  from assms(2,3) have "i \<in> fst ` set (dg_adj gs)" "j \<in> fst ` set (dg_adj gs)"
    unfolding e st by auto
  note n = add_edge_nodos [OF this]
  from assms(1) have "st1 = st \<or> (\<exists>a. fst st1 = cuerpo_add_edge gs i j a)"
    unfolding e st
    by (auto simp: simplificar_arista_def add_edge_def
        split: if_splits sum.splits option.splits prod.splits)
  with n assms(3) show ?thesis unfolding st by auto
qed

lemma pares_de_paralelas: "(i, j) \<in> pares_de (mg_edges mg) \<longleftrightarrow> paralelas mg i j \<noteq> []"
  by (force simp: pares_de_def paralelas_def filter_empty_conv)

lemma paralelas_en_aristas:
  "(k, d) \<in> set (paralelas mg i j) \<longleftrightarrow> (i, j, k, d) \<in> set (mg_edges mg)"
  by (force simp: paralelas_def)

lemma simplificar_a_digraph_forma:
  assumes "mg_wf mg"
    and "\<forall>(i, j, k, d) \<in> set (mg_edges mg).
           \<exists>d'. dato_elegido mg i j = Some d' \<and> distinct (map fst d') \<and> kw_arista_admisible d'"
    and "list_all (\<lambda>(n, d). kw_nodo_admisible d) (mg_nodes mg)"
  shows "\<exists>g. simplificar_a_digraph mg = Inr g \<and> dg_wf g \<and> dg_node g = mg_nodes mg \<and>
           (\<forall>i j. dg_get g i j = (if paralelas mg i j \<noteq> [] then dato_elegido mg i j else None))"
proof -
  let ?g0 = "fold (\<lambda>(nodo, data) g. cuerpo_add_node g nodo data) (mg_nodes mg) dg_vacio"
  from assms(1) have g0: "?g0 = \<lparr>dg_node = mg_nodes mg, dg_adj = map (\<lambda>(n, d). (n, [])) (mg_nodes mg)\<rparr>"
    by (intro nodos_copiados) (simp_all add: mg_wf_def)
  have w0: "dg_wf ?g0"
    using assms(1) unfolding g0 by (simp add: dg_wf_def mg_wf_def comp_def split_def list_all_iff)
  have e0: "\<forall>i j. dg_get ?g0 i j = (if (i, j) \<in> {} then dato_elegido mg i j else None)"
    unfolding g0 by (auto simp: dg_get_def split: option.splits dest!: map_of_SomeD)
  from simplificar_bucle [OF assms(2) subset_refl w0 e0] obtain g where
    f: "foldE (simplificar_arista mg) (mg_edges mg) (?g0, {}) = Inr (g, {} \<union> pares_de (mg_edges mg))"
    and w: "dg_wf g"
    and ge: "\<forall>i j. dg_get g i j = (if (i, j) \<in> {} \<union> pares_de (mg_edges mg) then dato_elegido mg i j else None)"
    by blast
  have ends: "\<And>e. e \<in> set (mg_edges mg) \<Longrightarrow>
      (case e of (i, j, k, d) \<Rightarrow> i \<in> set (map fst (mg_nodes mg)) \<and> j \<in> set (map fst (mg_nodes mg)))"
    using assms(1) by (auto simp: mg_wf_def list_all_iff)
  have "dg_node (fst (g, {} \<union> pares_de (mg_edges mg))) = mg_nodes mg \<and>
        map fst (dg_adj (fst (g, {} \<union> pares_de (mg_edges mg)))) = map fst (mg_nodes mg)"
  proof (rule foldE_inv [OF f, where P = "\<lambda>st. dg_node (fst st) = mg_nodes mg \<and>
        map fst (dg_adj (fst st)) = map fst (mg_nodes mg)"])
    show "dg_node (fst (?g0, {})) = mg_nodes mg \<and> map fst (dg_adj (fst (?g0, {}))) = map fst (mg_nodes mg)"
      unfolding g0 by (simp add: comp_def split_def)
  next
    fix x s s1
    assume "x \<in> set (mg_edges mg)"
      and "dg_node (fst s) = mg_nodes mg \<and> map fst (dg_adj (fst s)) = map fst (mg_nodes mg)"
      and "simplificar_arista mg x s = Inr s1"
    then show "dg_node (fst s1) = mg_nodes mg \<and> map fst (dg_adj (fst s1)) = map fst (mg_nodes mg)"
      using simplificar_arista_nodos [of mg x s s1 "map fst (mg_nodes mg)" "mg_nodes mg"] ends [of x]
      by blast
  qed
  then have n: "dg_node g = mg_nodes mg" by simp
  have "simplificar_a_digraph mg = Inr g"
    using f by (simp add: simplificar_a_digraph_def nodos_kw [OF assms(3)])
  with w n ge show ?thesis by (auto simp: pares_de_paralelas)
qed

lemma distinct_constante:
  assumes "distinct (map f xs)" and "\<forall>x \<in> set xs. f x = c"
  shows "length xs \<le> 1"
proof (cases xs)
  case Nil
  then show ?thesis by simp
next
  case (Cons a r)
  show ?thesis
  proof (cases r)
    case Nil
    with Cons show ?thesis by simp
  next
    case (Cons b r')
    with \<open>xs = a # r\<close> assms have "f a = c" "f b = c" "f a \<noteq> f b" by auto
    then show ?thesis by simp
  qed
qed

lemma unico_elemento:
  "length xs \<le> 1 \<Longrightarrow> x \<in> set xs \<Longrightarrow> xs = [x]"
  by (cases xs) auto

lemma count_list_distinct:
  "distinct xs \<Longrightarrow> x \<in> set xs \<Longrightarrow> count_list xs x = 1"
  by (induction xs) auto

text \<open>The instance: of the two edges from 1 to 2 the one of capacity 90 is kept.\<close>

lemma simplificar_a_digraph_ejemplo:
  "simplificar_a_digraph ejemplo_multigrafo = Inr ejemplo_grafo"
  by code_simp

lemma modelo_init_ejemplo:
  "modelo_init ejemplo_multigrafo ejemplo_emergencias 1 None = Inr ejemplo_modelo"
  by code_simp

text \<open>
  Outside the admissible capacities: when no parallel edge has a capacity above the initial
  \<open>-1\<close>, \<^verbatim>\<open>mejor_data\<close> stays \<^verbatim>\<open>None\<close> and \<^verbatim>\<open>add_edge(i, j, **None)\<close> raises.
\<close>

lemma simplificar_a_digraph_capacidades_negativas:
  "simplificar_a_digraph
     \<lparr>mg_nodes = [(1, []), (2, [])],
      mg_edges = [(1, 2, 0, [(''capacity'', Num (- 5))]), (1, 2, 1, [(''capacity'', Num (- 3))])]\<rparr>
   = Inl TypeError"
  by code_simp

text \<open>
  An attribute named like a parameter of \<^verbatim>\<open>add_edge\<close> or \<^verbatim>\<open>add_node\<close> cannot be
  passed as a keyword: the simplification raises.
\<close>

lemma simplificar_a_digraph_palabra_clave:
  "simplificar_a_digraph
     \<lparr>mg_nodes = [(1, []), (2, [])], mg_edges = [(1, 2, 0, [(''u_of_edge'', Num 7)])]\<rparr>
   = Inl TypeError"
  "simplificar_a_digraph
     \<lparr>mg_nodes = [(1, [(''node_for_adding'', Num 7)])], mg_edges = []\<rparr>
   = Inl TypeError"
  by code_simp+

text \<open>
  C4: on a well-formed multigraph whose capacities are absent or numbers above \<open>-1\<close> and
  whose attributes can be passed as keywords, the simplification succeeds; the simple graph
  has an edge exactly for the ordered pairs joined in the multigraph, each pair exactly
  once, and the attributes of that edge are those of one of the parallel edges whose
  capacity (\<^verbatim>\<open>d.get('capacity', 0)\<close>) is at least that of every parallel edge of the pair.
\<close>

theorem simplificar_a_digraph_maximo:
  assumes "mg_wf mg" and "\<forall>(u, v, k, d) \<in> set (mg_edges mg). capacidad_admisible d"
    and "atributos_pasables mg"
  shows "\<exists>g. simplificar_a_digraph mg = Inr g \<and>
     set (dg_edges g) = {(u, v). paralelas mg u v \<noteq> []} \<and>
     (\<forall>u v. paralelas mg u v \<noteq> [] \<longrightarrow>
        count_list (dg_edges g) (u, v) = 1 \<and>
        (\<exists>k d. (k, d) \<in> set (paralelas mg u v) \<and> dg_get g u v = Some d \<and>
               (\<forall>(k', d') \<in> set (paralelas mg u v). cap_de d' \<le> cap_de d)))"
proof -
  have adm: "\<And>i j. \<forall>(k, d) \<in> set (paralelas mg i j). capacidad_admisible d"
    using assms(2) by (auto simp: paralelas_en_aristas)
  have claves: "\<And>i j k d. (k, d) \<in> set (paralelas mg i j) \<Longrightarrow> distinct (map fst d)"
    using assms(1) by (auto simp: paralelas_en_aristas mg_wf_def list_all_iff)
  have kw: "\<And>i j k d. (k, d) \<in> set (paralelas mg i j) \<Longrightarrow> kw_arista_admisible d"
    using assms(3) by (auto simp: paralelas_en_aristas atributos_pasables_def list_all_iff)
  have kn: "list_all (\<lambda>(n, d). kw_nodo_admisible d) (mg_nodes mg)"
    using assms(3) by (simp add: atributos_pasables_def)
  have h: "\<forall>(i, j, k, d) \<in> set (mg_edges mg).
             \<exists>d'. dato_elegido mg i j = Some d' \<and> distinct (map fst d') \<and> kw_arista_admisible d'"
  proof (clarify)
    fix i j k d assume "(i, j, k, d) \<in> set (mg_edges mg)"
    then have "paralelas mg i j \<noteq> []" using paralelas_en_aristas [of k d mg i j] by auto
    from dato_elegido_max [OF adm this] claves kw
    show "\<exists>d'. dato_elegido mg i j = Some d' \<and> distinct (map fst d') \<and> kw_arista_admisible d'"
      by blast
  qed
  from simplificar_a_digraph_forma [OF assms(1) h kn] obtain g where
    g: "simplificar_a_digraph mg = Inr g" "dg_wf g"
      "\<forall>i j. dg_get g i j = (if paralelas mg i j \<noteq> [] then dato_elegido mg i j else None)"
    by blast
  have sel: "\<And>u v. paralelas mg u v \<noteq> [] \<Longrightarrow>
      \<exists>k d. (k, d) \<in> set (paralelas mg u v) \<and> dg_get g u v = Some d \<and>
               (\<forall>(k', d') \<in> set (paralelas mg u v). cap_de d' \<le> cap_de d)"
    using dato_elegido_max [OF adm] g(3) by simp
  have mem: "\<And>u v. (u, v) \<in> set (dg_edges g) \<longleftrightarrow> paralelas mg u v \<noteq> []"
  proof -
    fix u v
    show "(u, v) \<in> set (dg_edges g) \<longleftrightarrow> paralelas mg u v \<noteq> []"
    proof (cases "paralelas mg u v = []")
      case True
      with g(3) have "dg_get g u v = None" by simp
      with True show ?thesis by (simp add: dg_wf_aristas(3) [OF g(2)])
    next
      case False
      from sel [OF False] have "dg_get g u v \<noteq> None" by auto
      with False show ?thesis by (simp add: dg_wf_aristas(3) [OF g(2)])
    qed
  qed
  have "set (dg_edges g) = {(u, v). paralelas mg u v \<noteq> []}"
    using mem by auto
  moreover have "\<forall>u v. paralelas mg u v \<noteq> [] \<longrightarrow>
        count_list (dg_edges g) (u, v) = 1 \<and>
        (\<exists>k d. (k, d) \<in> set (paralelas mg u v) \<and> dg_get g u v = Some d \<and>
               (\<forall>(k', d') \<in> set (paralelas mg u v). cap_de d' \<le> cap_de d))"
    using sel mem count_list_distinct [OF dg_wf_aristas(1) [OF g(2)]] by blast
  ultimately show ?thesis using g(1) by blast
qed

theorem simplificar_a_digraph_maximo_witness:
  "\<exists>g. simplificar_a_digraph ejemplo_multigrafo = Inr g \<and>
     count_list (dg_edges g) (1, 2) = 1 \<and>
     (\<exists>k d. (k, d) \<in> set (paralelas ejemplo_multigrafo 1 2) \<and> dg_get g 1 2 = Some d \<and>
            (\<forall>(k', d') \<in> set (paralelas ejemplo_multigrafo 1 2). cap_de d' \<le> cap_de d))"
proof -
  have w: "mg_wf ejemplo_multigrafo"
    by (simp add: mg_wf_def ejemplo_multigrafo_def)
  have a: "\<forall>(u, v, k, d) \<in> set (mg_edges ejemplo_multigrafo). capacidad_admisible d"
    by (simp add: ejemplo_multigrafo_def capacidad_admisible_def)
  have p: "paralelas ejemplo_multigrafo 1 2 \<noteq> []"
    by (simp add: ejemplo_multigrafo_def paralelas_def)
  have n: "atributos_pasables ejemplo_multigrafo"
    by (simp add: atributos_pasables_def ejemplo_multigrafo_def kw_nodo_admisible_def
        kw_arista_admisible_def)
  from simplificar_a_digraph_maximo [OF w a n] p show ?thesis by blast
qed

text \<open>
  C9: on a well-formed multigraph in which no ordered pair is joined by more than one edge
  and whose attributes can be passed as keywords, the simplification succeeds and changes
  nothing: the nodes with their attributes are the same list, and the edges with their
  attributes are the same, none of them twice.
\<close>

theorem simplificar_a_digraph_identidad:
  assumes "mg_wf mg" and "distinct (map (\<lambda>(u, v, k, d). (u, v)) (mg_edges mg))"
    and "atributos_pasables mg"
  shows "\<exists>g. simplificar_a_digraph mg = Inr g \<and>
     dg_node g = mg_nodes mg \<and>
     distinct (dg_edges g) \<and>
     length (dg_edges g) = length (mg_edges mg) \<and>
     set (dg_edges_data g) = set (map (\<lambda>(u, v, k, d). (u, v, d)) (mg_edges mg))"
proof -
  have uno: "\<And>i j k d. (i, j, k, d) \<in> set (mg_edges mg) \<Longrightarrow> paralelas mg i j = [(k, d)]"
  proof -
    fix i j k d assume m: "(i, j, k, d) \<in> set (mg_edges mg)"
    have "distinct (map (\<lambda>(u, v, k, d). (u, v)) (filter (\<lambda>(u, v, k, d). u = i \<and> v = j) (mg_edges mg)))"
      using assms(2) by (rule distinct_map_filter)
    moreover have "\<forall>e \<in> set (filter (\<lambda>(u, v, k, d). u = i \<and> v = j) (mg_edges mg)).
        (\<lambda>(u, v, k, d). (u, v)) e = (i, j)"
      by auto
    ultimately have "length (filter (\<lambda>(u, v, k, d). u = i \<and> v = j) (mg_edges mg)) \<le> 1"
      by (rule distinct_constante)
    then have "length (paralelas mg i j) \<le> 1" by (simp add: paralelas_def)
    moreover have "(k, d) \<in> set (paralelas mg i j)" using m by (simp add: paralelas_en_aristas)
    ultimately show "paralelas mg i j = [(k, d)]"
      by (rule unico_elemento)
  qed
  have kn: "list_all (\<lambda>(n, d). kw_nodo_admisible d) (mg_nodes mg)"
    using assms(3) by (simp add: atributos_pasables_def)
  have h: "\<forall>(i, j, k, d) \<in> set (mg_edges mg).
             \<exists>d'. dato_elegido mg i j = Some d' \<and> distinct (map fst d') \<and> kw_arista_admisible d'"
    using uno assms(1,3)
    by (auto simp: dato_elegido_def mg_wf_def atributos_pasables_def list_all_iff)
  from simplificar_a_digraph_forma [OF assms(1) h kn] obtain g where
    g: "simplificar_a_digraph mg = Inr g" "dg_wf g" "dg_node g = mg_nodes mg"
      "\<forall>i j. dg_get g i j = (if paralelas mg i j \<noteq> [] then dato_elegido mg i j else None)"
    by blast
  have s: "set (dg_edges_data g) = set (map (\<lambda>(u, v, k, d). (u, v, d)) (mg_edges mg))"
  proof (intro set_eqI iffI)
    fix x assume x: "x \<in> set (dg_edges_data g)"
    obtain u v d where xe: "x = (u, v, d)" by (cases x)
    from x have "dg_get g u v = Some d" unfolding xe by (simp add: dg_wf_aristas(2) [OF g(2)])
    with g(4) have ne: "paralelas mg u v \<noteq> []" and de: "dato_elegido mg u v = Some d"
      by (auto split: if_splits)
    from ne obtain k d' where "(k, d') \<in> set (paralelas mg u v)"
      by (cases "paralelas mg u v") auto
    then have m: "(u, v, k, d') \<in> set (mg_edges mg)" by (simp add: paralelas_en_aristas)
    from uno [OF m] de have "d' = d" by (simp add: dato_elegido_def)
    with m show "x \<in> set (map (\<lambda>(u, v, k, d). (u, v, d)) (mg_edges mg))"
      unfolding xe by force
  next
    fix x assume "x \<in> set (map (\<lambda>(u, v, k, d). (u, v, d)) (mg_edges mg))"
    then obtain u v k d where m: "(u, v, k, d) \<in> set (mg_edges mg)" and xe: "x = (u, v, d)"
      by auto
    from uno [OF m] g(4) have "dg_get g u v = Some d" by (simp add: dato_elegido_def)
    then show "x \<in> set (dg_edges_data g)"
      unfolding xe by (simp add: dg_wf_aristas(2) [OF g(2)])
  qed
  have "set (dg_edges g) = set (map (\<lambda>(u, v, k, d). (u, v)) (mg_edges mg))"
    unfolding dg_edges_de_datos using s by (force simp: image_iff)
  with dg_wf_aristas(1) [OF g(2)] assms(2)
  have "length (dg_edges g) = length (map (\<lambda>(u, v, k, d). (u, v)) (mg_edges mg))"
    by (metis distinct_card)
  with g(1,3) s dg_wf_aristas(1) [OF g(2)] show ?thesis by auto
qed

theorem simplificar_a_digraph_identidad_witness:
  "\<exists>g. simplificar_a_digraph ejemplo_multigrafo_simple = Inr g \<and>
     dg_node g = mg_nodes ejemplo_multigrafo_simple \<and>
     distinct (dg_edges g) \<and>
     length (dg_edges g) = length (mg_edges ejemplo_multigrafo_simple) \<and>
     set (dg_edges_data g) = set (map (\<lambda>(u, v, k, d). (u, v, d)) (mg_edges ejemplo_multigrafo_simple))"
proof -
  have w: "mg_wf ejemplo_multigrafo_simple"
    by (simp add: mg_wf_def ejemplo_multigrafo_simple_def)
  have s: "distinct (map (\<lambda>(u, v, k, d). (u, v)) (mg_edges ejemplo_multigrafo_simple))"
    by (simp add: ejemplo_multigrafo_simple_def)
  have n: "atributos_pasables ejemplo_multigrafo_simple"
    by (simp add: atributos_pasables_def ejemplo_multigrafo_simple_def kw_nodo_admisible_def
        kw_arista_admisible_def)
  from simplificar_a_digraph_identidad [OF w s n] show ?thesis .
qed

lemma simplificar_a_digraph_ejemplo_simple:
  "simplificar_a_digraph ejemplo_multigrafo_simple = Inr ejemplo_grafo"
  by code_simp

subsection \<open>The construction succeeds\<close>

text \<open>
  The properties of the MILP above are stated for a model that was built. It is built whenever
  the node and edge lists have no repetition, every edge has a numeric length and capacity,
  and every severity has its two costs; the constructor gives such lists on a well-formed
  multigraph with admissible capacities whose attributes can be passed as keywords.
\<close>

lemma foldE_exito:
  assumes "\<And>x s. x \<in> set xs \<Longrightarrow> \<exists>s'. f x s = Inr s'"
  shows "\<exists>s'. foldE f xs s = Inr s'"
  using assms
proof (induction xs arbitrary: s)
  case Nil
  then show ?case by simp
next
  case (Cons x xs)
  from Cons.prems [of x s] obtain s1 where a: "f x s = Inr s1" by auto
  have "\<exists>s'. foldE f xs s1 = Inr s'"
  proof (rule Cons.IH)
    fix y t
    assume "y \<in> set xs"
    then show "\<exists>s'. f y t = Inr s'" using Cons.prems [of y t] by simp
  qed
  with a show ?case by simp
qed

lemma agregar_bucle_exito:
  assumes "distinct (map (\<lambda>x. r_nombre (f x)) xs)"
    and "(\<lambda>x. r_nombre (f x)) ` set xs \<inter> r_nombre ` set (restricciones m) = {}"
  shows "foldE (\<lambda>x m'. agregar_restriccion m' (f x)) xs m
           = Inr (m\<lparr>restricciones := restricciones m @ map f xs\<rparr>)"
  using assms
proof (induction xs arbitrary: m)
  case Nil
  then show ?case by simp
next
  case (Cons x xs)
  let ?m1 = "m\<lparr>restricciones := restricciones m @ [f x]\<rparr>"
  from Cons.prems(2) have a: "agregar_restriccion m (f x) = Inr ?m1"
    by (auto simp: agregar_restriccion_def)
  from Cons.prems have d: "distinct (map (\<lambda>x. r_nombre (f x)) xs)"
    and i: "(\<lambda>x. r_nombre (f x)) ` set xs \<inter> r_nombre ` set (restricciones ?m1) = {}"
    by auto
  from Cons.IH [OF d i] a show ?case by simp
qed

lemma nombre_restriccion_flujo:
  "r_nombre (restriccion_flujo self k d n) \<in> {Flujo_Origen k n, Flujo_Destino k n, Flujo_Conservacion k n}"
  by (simp add: restriccion_flujo_def)

lemma flujo_de_emergencia_exito:
  assumes "distinct (nodos self)"
    and "\<forall>c \<in> set (restricciones m). \<forall>v.
           r_nombre c \<notin> {Flujo_Origen k v, Flujo_Destino k v, Flujo_Conservacion k v}"
  shows "flujo_de_emergencia self (k, e) m
           = Inr (m\<lparr>restricciones := restricciones m @
                    map (restriccion_flujo self k (nodo_destino e)) (nodos self)\<rparr>)"
proof -
  let ?f = "restriccion_flujo self k (nodo_destino e)"
  have "inj_on (\<lambda>n. r_nombre (?f n)) (set (nodos self))"
    by (auto simp: inj_on_def restriccion_flujo_def split: if_splits)
  with assms(1) have d: "distinct (map (\<lambda>n. r_nombre (?f n)) (nodos self))"
    by (simp add: distinct_map)
  have i: "(\<lambda>n. r_nombre (?f n)) ` set (nodos self) \<inter> r_nombre ` set (restricciones m) = {}"
  proof (rule ccontr)
    assume "\<not> ?thesis"
    then obtain n c where c: "c \<in> set (restricciones m)" and e: "r_nombre c = r_nombre (?f n)"
      by (auto simp: image_iff) metis
    from nombre_restriccion_flujo [of self k "nodo_destino e" n] e assms(2) c show False
      by (metis)
  qed
  from agregar_bucle_exito [of ?f "nodos self" m, OF d i] show ?thesis
    by (simp add: flujo_de_emergencia_def)
qed

lemma flujo_bucle_exito:
  assumes "distinct (nodos self)" and "distinct (map fst kes)"
    and "\<forall>c \<in> set (restricciones m). \<forall>k \<in> fst ` set kes. \<forall>v.
           r_nombre c \<notin> {Flujo_Origen k v, Flujo_Destino k v, Flujo_Conservacion k v}"
  shows "foldE (flujo_de_emergencia self) kes m
           = Inr (m\<lparr>restricciones := restricciones m @ restricciones_flujo self kes\<rparr>)"
  using assms(2,3)
proof (induction kes arbitrary: m)
  case Nil
  then show ?case by (simp add: restricciones_flujo_def)
next
  case (Cons p kes)
  obtain k e where p: "p = (k, e)" by (cases p)
  let ?cs = "map (restriccion_flujo self k (nodo_destino e)) (nodos self)"
  let ?m1 = "m\<lparr>restricciones := restricciones m @ ?cs\<rparr>"
  have a: "flujo_de_emergencia self (k, e) m = Inr ?m1"
    using flujo_de_emergencia_exito [OF assms(1), of m k e] Cons.prems(2) unfolding p by simp
  have d: "distinct (map fst kes)" and kn: "k \<notin> fst ` set kes"
    using Cons.prems(1) unfolding p by auto
  have i: "\<forall>c \<in> set (restricciones ?m1). \<forall>k' \<in> fst ` set kes. \<forall>v.
           r_nombre c \<notin> {Flujo_Origen k' v, Flujo_Destino k' v, Flujo_Conservacion k' v}"
  proof (intro ballI allI)
    fix c k' v
    assume c: "c \<in> set (restricciones ?m1)" and k': "k' \<in> fst ` set kes"
    from c have "c \<in> set (restricciones m) \<or> c \<in> set ?cs" by auto
    then show "r_nombre c \<notin> {Flujo_Origen k' v, Flujo_Destino k' v, Flujo_Conservacion k' v}"
    proof
      assume "c \<in> set (restricciones m)"
      with Cons.prems(2) k' show ?thesis unfolding p by auto
    next
      assume "c \<in> set ?cs"
      then obtain n where "c = restriccion_flujo self k (nodo_destino e) n" by auto
      with nombre_restriccion_flujo [of self k "nodo_destino e" n] k' kn show ?thesis by force
    qed
  qed
  from Cons.IH [OF d i] a show ?case
    unfolding p by (simp add: restricciones_flujo_def)
qed

lemma capacidad_bucle_exito:
  assumes "distinct ars"
    and "\<forall>(i, j) \<in> set ars. \<exists>cap. num_attr (grafo self) i j ''capacity'' = Inr cap"
    and "\<forall>c \<in> set (restricciones m). \<forall>(i, j) \<in> set ars. r_nombre c \<noteq> Capacidad i j"
  shows "\<exists>m'. foldE (capacidad_de_arista self) ars m = Inr m'"
  using assms
proof (induction ars arbitrary: m)
  case Nil
  then show ?case by simp
next
  case (Cons a ars)
  obtain i j where a: "a = (i, j)" by (cases a)
  from Cons.prems(2) obtain cap where cap: "num_attr (grafo self) i j ''capacity'' = Inr cap"
    unfolding a by auto
  let ?c = "\<lparr>r_nombre = Capacidad i j, r_terminos = demanda_total self i j,
             r_sentido = LE, r_rhs = cap\<rparr>"
  let ?m1 = "m\<lparr>restricciones := restricciones m @ [?c]\<rparr>"
  from Cons.prems(3) have "Capacidad i j \<notin> r_nombre ` set (restricciones m)"
    unfolding a by auto
  then have s: "capacidad_de_arista self a m = Inr ?m1"
    unfolding a by (simp add: capacidad_de_arista_def cap agregar_restriccion_def)
  from Cons.prems(1) have d: "distinct ars" and n: "(i, j) \<notin> set ars" unfolding a by auto
  from Cons.prems(2) have c2: "\<forall>(i, j) \<in> set ars. \<exists>cap. num_attr (grafo self) i j ''capacity'' = Inr cap"
    by simp
  have c3: "\<forall>c \<in> set (restricciones ?m1). \<forall>(i, j) \<in> set ars. r_nombre c \<noteq> Capacidad i j"
    using Cons.prems(3) n by auto
  from Cons.IH [OF d c2 c3] s show ?case by simp
qed

lemma definir_funcion_objetivo_exito:
  assumes "\<forall>e \<in> set (emergencias self).
        costo_especificado (costos_usuario self) (severidad e) ''costo_fijo'' ''costo_fijo_activacion'' \<noteq> None \<and>
        costo_especificado (costos_usuario self) (severidad e) ''costo_km'' ''costo_por_km'' \<noteq> None"
    and "\<forall>(i, j) \<in> set (aristas self). \<exists>l. num_attr (grafo self) i j ''length'' = Inr l"
  shows "\<exists>m1. definir_funcion_objetivo self m0 = Inr m1"
proof -
  have "\<exists>t. foldE (sumar_costo_fijo self) (emergencias self) 0 = Inr t"
  proof (rule foldE_exito)
    fix e s
    assume "e \<in> set (emergencias self)"
    with assms(1) show "\<exists>s'. sumar_costo_fijo self e s = Inr s'"
      by (auto simp: sumar_costo_fijo_def obtener_costo_especificado)
  qed
  moreover have "\<exists>cv. foldE (costo_flujo self) (enumerate 0 (emergencias self)) [] = Inr cv"
  proof (rule foldE_exito)
    fix p cv
    assume pm: "p \<in> set (enumerate 0 (emergencias self))"
    obtain k e where p: "p = (k, e)" by (cases p)
    from pm have "e \<in> set (emergencias self)" unfolding p by (auto simp: in_set_enumerate_eq)
    with assms(1) obtain ck where
      ck: "costo_especificado (costos_usuario self) (severidad e) ''costo_km'' ''costo_por_km'' = Some ck"
      by auto
    have "\<exists>cv'. foldE (costo_arista self k ck) (aristas self) cv = Inr cv'"
    proof (rule foldE_exito)
      fix a s
      assume "a \<in> set (aristas self)"
      with assms(2) show "\<exists>s'. costo_arista self k ck a s = Inr s'"
        by (cases a) (auto simp: costo_arista_def)
    qed
    then show "\<exists>s'. costo_flujo self p cv = Inr s'"
      unfolding p by (simp add: costo_flujo_def obtener_costo_especificado ck)
  qed
  ultimately show ?thesis by (auto simp: definir_funcion_objetivo_def)
qed

lemma construir_modelo_exito:
  assumes "distinct (nodos self)" and "distinct (aristas self)"
    and "\<forall>(i, j) \<in> set (aristas self).
           (\<exists>l. num_attr (grafo self) i j ''length'' = Inr l) \<and>
           (\<exists>cap. num_attr (grafo self) i j ''capacity'' = Inr cap)"
    and "\<forall>e \<in> set (emergencias self).
        costo_especificado (costos_usuario self) (severidad e) ''costo_fijo'' ''costo_fijo_activacion'' \<noteq> None \<and>
        costo_especificado (costos_usuario self) (severidad e) ''costo_km'' ''costo_por_km'' \<noteq> None"
  shows "\<exists>m. construir_modelo self = Inr m"
proof -
  let ?m0 = "\<lparr>variables = crear_variables self, objetivo = None, restricciones = []\<rparr>"
  have l: "\<forall>(i, j) \<in> set (aristas self). \<exists>l. num_attr (grafo self) i j ''length'' = Inr l"
    and c: "\<forall>(i, j) \<in> set (aristas self). \<exists>cap. num_attr (grafo self) i j ''capacity'' = Inr cap"
    using assms(3) by auto
  from definir_funcion_objetivo_exito [OF assms(4) l, of ?m0] obtain m1 where
    o: "definir_funcion_objetivo self ?m0 = Inr m1" by blast
  from definir_funcion_objetivo_forma [OF o] have r1: "restricciones m1 = []" by auto
  let ?m2 = "m1\<lparr>restricciones := restricciones m1 @
                restricciones_flujo self (enumerate 0 (emergencias self))\<rparr>"
  have f: "restriccion_conservacion_flujo self m1 = Inr ?m2"
    unfolding restriccion_conservacion_flujo_def
    by (rule flujo_bucle_exito [OF assms(1)]) (simp_all add: r1)
  have n: "\<forall>c \<in> set (restricciones ?m2). \<forall>(i, j) \<in> set (aristas self). r_nombre c \<noteq> Capacidad i j"
  proof (intro ballI)
    fix c a
    assume "c \<in> set (restricciones ?m2)"
    then obtain k d v where "c = restriccion_flujo self k d v"
      by (auto simp: r1 restricciones_flujo_def)
    with nombre_restriccion_flujo [of self k d v]
    show "case a of (i, j) \<Rightarrow> r_nombre c \<noteq> Capacidad i j" by (cases a) auto
  qed
  from capacidad_bucle_exito [OF assms(2) c n] obtain m where
    "restriccion_capacidad_vias self ?m2 = Inr m"
    unfolding restriccion_capacidad_vias_def by blast
  with o f show ?thesis by (simp add: construir_modelo_def)
qed

lemma modelo_init_exito:
  assumes "mg_wf mg" and "\<forall>(u, v, k, d) \<in> set (mg_edges mg). capacidad_admisible d"
    and "atributos_pasables mg"
  shows "\<exists>self. modelo_init mg ems orig cu = Inr self \<and>
           emergencias self = ems \<and> nodo_origen self = orig \<and> costos_usuario self = cu \<and>
           nodos self = map fst (mg_nodes mg) \<and> distinct (nodos self) \<and> distinct (aristas self) \<and>
           (\<forall>(i, j) \<in> set (aristas self).
              \<exists>k d. (i, j, k, d) \<in> set (mg_edges mg) \<and> dg_get (grafo self) i j = Some d)"
proof -
  have adm: "\<And>i j. \<forall>(k, d) \<in> set (paralelas mg i j). capacidad_admisible d"
    using assms(2) by (auto simp: paralelas_en_aristas)
  have claves: "\<And>i j k d. (k, d) \<in> set (paralelas mg i j) \<Longrightarrow> distinct (map fst d)"
    using assms(1) by (auto simp: paralelas_en_aristas mg_wf_def list_all_iff)
  have kw: "\<And>i j k d. (k, d) \<in> set (paralelas mg i j) \<Longrightarrow> kw_arista_admisible d"
    using assms(3) by (auto simp: paralelas_en_aristas atributos_pasables_def list_all_iff)
  have kn: "list_all (\<lambda>(n, d). kw_nodo_admisible d) (mg_nodes mg)"
    using assms(3) by (simp add: atributos_pasables_def)
  have h: "\<forall>(i, j, k, d) \<in> set (mg_edges mg).
             \<exists>d'. dato_elegido mg i j = Some d' \<and> distinct (map fst d') \<and> kw_arista_admisible d'"
  proof (clarify)
    fix i j k d assume "(i, j, k, d) \<in> set (mg_edges mg)"
    then have "paralelas mg i j \<noteq> []" using paralelas_en_aristas [of k d mg i j] by auto
    from dato_elegido_max [OF adm this] claves kw
    show "\<exists>d'. dato_elegido mg i j = Some d' \<and> distinct (map fst d') \<and> kw_arista_admisible d'"
      by blast
  qed
  from simplificar_a_digraph_forma [OF assms(1) h kn] obtain g where
    g: "simplificar_a_digraph mg = Inr g" "dg_wf g" "dg_node g = mg_nodes mg"
      "\<forall>i j. dg_get g i j = (if paralelas mg i j \<noteq> [] then dato_elegido mg i j else None)"
    by blast
  let ?self = "\<lparr>grafo = g, emergencias = ems, nodo_origen = orig, costos_usuario = cu,
               nodos = dg_nodes g, aristas = dg_edges g\<rparr>"
  have i: "modelo_init mg ems orig cu = Inr ?self"
    by (simp add: modelo_init_def g(1))
  have n: "dg_nodes g = map fst (mg_nodes mg)" by (simp add: dg_nodes_def g(3))
  have dn: "distinct (dg_nodes g)" using assms(1) by (simp add: n mg_wf_def)
  have de: "distinct (dg_edges g)" by (rule dg_wf_aristas(1) [OF g(2)])
  have ar: "\<forall>(i, j) \<in> set (dg_edges g).
              \<exists>k d. (i, j, k, d) \<in> set (mg_edges mg) \<and> dg_get g i j = Some d"
  proof (clarify)
    fix i j assume "(i, j) \<in> set (dg_edges g)"
    then have "dg_get g i j \<noteq> None" by (simp add: dg_wf_aristas(3) [OF g(2)])
    with g(4) have p: "paralelas mg i j \<noteq> []" by (auto split: if_splits)
    from dato_elegido_max [OF adm p] g(4) p
    show "\<exists>k d. (i, j, k, d) \<in> set (mg_edges mg) \<and> dg_get g i j = Some d"
      by (auto simp: paralelas_en_aristas)
  qed
  show ?thesis
    by (rule exI [of _ ?self]) (simp add: i n dn [unfolded n] de ar)
qed

lemma modelo_completo_exito:
  assumes "mg_wf mg"
    and "\<forall>(u, v, k, d) \<in> set (mg_edges mg).
           (\<exists>l. map_of d ''length'' = Some (Num l)) \<and>
           (\<exists>c. map_of d ''capacity'' = Some (Num c) \<and> - 1 < c)"
    and "\<forall>e \<in> set ems.
        costo_especificado cu (severidad e) ''costo_fijo'' ''costo_fijo_activacion'' \<noteq> None \<and>
        costo_especificado cu (severidad e) ''costo_km'' ''costo_por_km'' \<noteq> None"
    and "atributos_pasables mg"
  shows "\<exists>self m. modelo_init mg ems orig cu = Inr self \<and> construir_modelo self = Inr m"
proof -
  have a: "\<forall>(u, v, k, d) \<in> set (mg_edges mg). capacidad_admisible d"
    using assms(2) by (auto simp: capacidad_admisible_def)
  from modelo_init_exito [OF assms(1) a assms(4), of ems orig cu] obtain self where
    s: "modelo_init mg ems orig cu = Inr self" "emergencias self = ems" "costos_usuario self = cu"
      "distinct (nodos self)" "distinct (aristas self)"
      "\<forall>(i, j) \<in> set (aristas self).
              \<exists>k d. (i, j, k, d) \<in> set (mg_edges mg) \<and> dg_get (grafo self) i j = Some d"
    by blast
  have n: "\<forall>(i, j) \<in> set (aristas self).
           (\<exists>l. num_attr (grafo self) i j ''length'' = Inr l) \<and>
           (\<exists>cap. num_attr (grafo self) i j ''capacity'' = Inr cap)"
  proof (clarify)
    fix i j assume "(i, j) \<in> set (aristas self)"
    with s(6) obtain k d where d: "(i, j, k, d) \<in> set (mg_edges mg)" "dg_get (grafo self) i j = Some d"
      by blast
    from assms(2) d(1) obtain l c where "map_of d ''length'' = Some (Num l)"
      "map_of d ''capacity'' = Some (Num c)" by blast
    with d(2) show "(\<exists>l. num_attr (grafo self) i j ''length'' = Inr l) \<and>
           (\<exists>cap. num_attr (grafo self) i j ''capacity'' = Inr cap)"
      by (simp add: num_attr_def edge_attr_def)
  qed
  have c: "\<forall>e \<in> set (emergencias self).
        costo_especificado (costos_usuario self) (severidad e) ''costo_fijo'' ''costo_fijo_activacion'' \<noteq> None \<and>
        costo_especificado (costos_usuario self) (severidad e) ''costo_km'' ''costo_por_km'' \<noteq> None"
    using assms(3) by (simp add: s(2,3))
  from construir_modelo_exito [OF s(4,5) n c] s(1) show ?thesis by blast
qed

end
